theory Spec2Isabelle
  imports Main "HOL-Library.Word"
begin

unbundle bit_operations_syntax

section \<open>Channel handles (include/proxc/channel/tx.hpp, rx.hpp)\<close>

text \<open>
  A channel object lives on the heap behind a \<open>std::shared_ptr\<close>; the two handles
  \<open>Tx\<close> and \<open>Rx\<close> each hold one such pointer in their member \<open>chan_\<close>. The heap maps
  the address of a channel to its object. Of the channel object only the closed flag and
  the reference count of the shared pointer are kept; the rendezvous slot plays no part
  in what the handles do around \<open>close\<close>. Member names lose their trailing underscore.
\<close>

datatype OpResult = Ok | Closed | Timeout

text \<open>What a member call through a pointer can go wrong with.\<close>

datatype fault = NullDereference | DanglingPointer

record ChannelImpl =
  closed :: bool
  use_count :: nat

type_synonym chan_heap = "nat \<rightharpoonup> ChannelImpl"

text \<open>\<open>ChannelId\<close> wraps the raw pointer \<open>chan_.get()\<close>; \<open>None\<close> is the null pointer.\<close>

type_synonym ChannelId = "nat option"

record Handle =
  chan :: "nat option"

type_synonym Tx = Handle
type_synonym Rx = Handle

text \<open>\<open>std::shared_ptr::reset\<close>: drop one reference, free the object with the last one.\<close>

definition shared_ptr_reset :: "nat \<Rightarrow> chan_heap \<Rightarrow> chan_heap" where
  "shared_ptr_reset c h =
     (case h c of
        None \<Rightarrow> h
      | Some ch \<Rightarrow>
          if use_count ch \<le> 1 then h(c := None)
          else h(c \<mapsto> ch\<lparr>use_count := use_count ch - 1\<rparr>))"

text \<open>
  Modelled from the spec: \<open>ChannelImpl::close\<close> and \<open>ChannelImpl::is_closed\<close>
  (proxc/channel/sync.hpp is not among the sources). "Close: atomically set closed";
  the waking of a waiter is left out, no fiber is modelled here.
\<close>

definition ChannelImpl_close :: "nat \<Rightarrow> chan_heap \<Rightarrow> chan_heap" where
  "ChannelImpl_close c h =
     (case h c of None \<Rightarrow> h | Some ch \<Rightarrow> h(c \<mapsto> ch\<lparr>closed := True\<rparr>))"

definition ChannelImpl_is_closed :: "nat \<Rightarrow> chan_heap \<Rightarrow> fault + bool" where
  "ChannelImpl_is_closed c h =
     (case h c of None \<Rightarrow> Inl DanglingPointer | Some ch \<Rightarrow> Inr (closed ch))"

text \<open>
  Modelled from the spec: the first step of \<open>ChannelImpl::send\<close> and
  \<open>ChannelImpl::recv\<close> ("If closed, return Closed"); what an open channel does with the
  operation is the parameter \<open>rendezvous\<close>.
\<close>

definition ChannelImpl_op ::
  "(nat \<Rightarrow> chan_heap \<Rightarrow> OpResult \<times> chan_heap) \<Rightarrow> nat \<Rightarrow> chan_heap
     \<Rightarrow> fault + (OpResult \<times> chan_heap)" where
  "ChannelImpl_op rendezvous c h =
     (case h c of
        None \<Rightarrow> Inl DanglingPointer
      | Some ch \<Rightarrow> if closed ch then Inr (Closed, h) else Inr (rendezvous c h))"

subsection \<open>Tx\<close>

text \<open>\<open>Id get_id() const { return Id{ chan_.get() }; }\<close>\<close>

definition Tx_get_id :: "Tx \<Rightarrow> ChannelId" where
  "Tx_get_id tx = chan tx"

text \<open>\<open>bool is_closed() const { return chan_->is_closed(); }\<close>: no null check.\<close>

definition Tx_is_closed :: "Tx \<Rightarrow> chan_heap \<Rightarrow> fault + bool" where
  "Tx_is_closed tx h =
     (case chan tx of None \<Rightarrow> Inl NullDereference | Some c \<Rightarrow> ChannelImpl_is_closed c h)"

text \<open>\<open>void close() { if ( chan_ ) { chan_->close(); chan_.reset(); } }\<close>\<close>

definition Tx_close :: "Tx \<times> chan_heap \<Rightarrow> Tx \<times> chan_heap" where
  "Tx_close p =
     (case chan (fst p) of
        None \<Rightarrow> p
      | Some c \<Rightarrow> ((fst p)\<lparr>chan := None\<rparr>, shared_ptr_reset c (ChannelImpl_close c (snd p))))"

text \<open>\<open>OpResult send( item ) { ...; return chan_->send( tx ); }\<close>: no null check.\<close>

definition Tx_send ::
  "(nat \<Rightarrow> chan_heap \<Rightarrow> OpResult \<times> chan_heap) \<Rightarrow> Tx \<Rightarrow> chan_heap
     \<Rightarrow> fault + (OpResult \<times> chan_heap)" where
  "Tx_send rendezvous tx h =
     (case chan tx of None \<Rightarrow> Inl NullDereference | Some c \<Rightarrow> ChannelImpl_op rendezvous c h)"

subsection \<open>Rx\<close>

definition Rx_get_id :: "Rx \<Rightarrow> ChannelId" where
  "Rx_get_id rx = chan rx"

definition Rx_is_closed :: "Rx \<Rightarrow> chan_heap \<Rightarrow> fault + bool" where
  "Rx_is_closed rx h =
     (case chan rx of None \<Rightarrow> Inl NullDereference | Some c \<Rightarrow> ChannelImpl_is_closed c h)"

definition Rx_close :: "Rx \<times> chan_heap \<Rightarrow> Rx \<times> chan_heap" where
  "Rx_close p =
     (case chan (fst p) of
        None \<Rightarrow> p
      | Some c \<Rightarrow> ((fst p)\<lparr>chan := None\<rparr>, shared_ptr_reset c (ChannelImpl_close c (snd p))))"

definition Rx_recv ::
  "(nat \<Rightarrow> chan_heap \<Rightarrow> OpResult \<times> chan_heap) \<Rightarrow> Rx \<Rightarrow> chan_heap
     \<Rightarrow> fault + (OpResult \<times> chan_heap)" where
  "Rx_recv rendezvous rx h =
     (case chan rx of None \<Rightarrow> Inl NullDereference | Some c \<Rightarrow> ChannelImpl_op rendezvous c h)"

text \<open>
  The factory \<open>create\<close> hands both handles one pointer to a fresh, open channel:
  two references, at an address the heap does not use yet.
\<close>

definition create :: "nat \<Rightarrow> chan_heap \<Rightarrow> (Tx \<times> Rx) \<times> chan_heap" where
  "create c h =
     ((\<lparr>chan = Some c\<rparr>, \<lparr>chan = Some c\<rparr>), h(c \<mapsto> \<lparr>closed = False, use_count = 2\<rparr>))"

section \<open>The Alt builder (include/proxc/alt.hpp, include/proxc/timer.hpp)\<close>

subsection \<open>Timers\<close>

text \<open>
  Time points are tick counts of \<open>std::chrono::steady_clock\<close> (a signed 64-bit count);
  \<open>TimePointT::max()\<close> is the largest of them. A timer is its \<open>time_point_\<close>, and for
  \<open>Egg\<close> and \<open>Repeat\<close> its \<open>duration_\<close>. \<open>reset\<close> reads the clock: the reading is the
  argument \<open>now\<close>. The sum \<open>now + duration_\<close> is left unbounded, where C++ leaves an
  overflow undefined.
\<close>

definition TimePointT_max :: int where
  "TimePointT_max = 2 ^ 63 - 1"

datatype Timer = Egg int int | Repeat int int | Date int

fun Timer_get :: "Timer \<Rightarrow> int" where
  "Timer_get (Egg tp d) = tp"
| "Timer_get (Repeat tp d) = tp"
| "Timer_get (Date tp) = tp"

fun Timer_reset :: "int \<Rightarrow> Timer \<Rightarrow> Timer" where
  "Timer_reset now (Egg tp d) = Egg (now + d) d"
| "Timer_reset now (Repeat tp d) = Repeat tp d"
| "Timer_reset now (Date tp) = Date tp"

subsection \<open>Choices and the per-channel audit\<close>

text \<open>
  A choice keeps the handle it was made for, the item of a send, and the closure; an
  empty delegate is \<open>None\<close>. \<open>choices_\<close> owns the choices; the audit's \<open>vec_\<close> holds
  pointers to them, which are their positions in \<open>choices_\<close>.
\<close>

datatype ('i, 'f) Choice = ChoiceSend Tx 'i "'f option" | ChoiceRecv Rx "'f option"

fun choice_id :: "('i, 'f) Choice \<Rightarrow> ChannelId" where
  "choice_id (ChoiceSend tx item fn) = Tx_get_id tx"
| "choice_id (ChoiceRecv rx fn) = Rx_get_id rx"

fun is_send :: "('i, 'f) Choice \<Rightarrow> bool" where
  "is_send (ChoiceSend tx item fn) = True"
| "is_send (ChoiceRecv rx fn) = False"

datatype State = Tx | Rx | Clash

record ChoiceAudit =
  state :: State
  vec :: "nat list"

text \<open>
  The members of \<open>Alt\<close> that the builder calls read or write. The selection state, the
  owning fiber, the spinlock and the winner slot are untouched by them and left out.
\<close>

record ('i, 'f) Alt =
  choices :: "('i, 'f) Choice list"
  alt_time_point :: int
  timer_fn :: "'f option"
  has_skip :: bool
  skip_fn :: "'f option"
  ch_audit :: "ChannelId \<rightharpoonup> ChoiceAudit"

text \<open>The default member initialisers of the class.\<close>

definition Alt_new :: "('i, 'f) Alt" where
  "Alt_new = \<lparr>choices = [], alt_time_point = TimePointT_max, timer_fn = None,
     has_skip = False, skip_fn = None, ch_audit = Map.empty\<rparr>"

text \<open>
  \<open>Alt::send_impl\<close>. The heap \<open>h\<close> is the one the call sees when it asks
  \<open>tx.is_closed()\<close>, which faults on a handle without a channel.
\<close>

definition send_impl ::
  "chan_heap \<Rightarrow> Tx \<Rightarrow> 'i \<Rightarrow> 'f option \<Rightarrow> ('i, 'f) Alt \<Rightarrow> fault + ('i, 'f) Alt" where
  "send_impl h tx item fn a =
     (case Tx_is_closed tx h of
        Inl e \<Rightarrow> Inl e
      | Inr cl \<Rightarrow>
          if \<not> cl then
            (let id = Tx_get_id tx in
             case ch_audit a id of
               None \<Rightarrow>
                 Inr (a\<lparr>ch_audit := (ch_audit a)(id \<mapsto> \<lparr>state = Tx, vec = [length (choices a)]\<rparr>),
                        choices := choices a @ [ChoiceSend tx item fn]\<rparr>)
             | Some au \<Rightarrow>
                 if state au = Tx then
                   Inr (a\<lparr>ch_audit := (ch_audit a)(id \<mapsto> au\<lparr>vec := vec au @ [length (choices a)]\<rparr>),
                          choices := choices a @ [ChoiceSend tx item fn]\<rparr>)
                 else Inr (a\<lparr>ch_audit := (ch_audit a)(id \<mapsto> au\<lparr>state := Clash\<rparr>)\<rparr>))
          else Inr a)"

text \<open>\<open>Alt::recv_impl\<close>, the mirror image.\<close>

definition recv_impl ::
  "chan_heap \<Rightarrow> Rx \<Rightarrow> 'f option \<Rightarrow> ('i, 'f) Alt \<Rightarrow> fault + ('i, 'f) Alt" where
  "recv_impl h rx fn a =
     (case Rx_is_closed rx h of
        Inl e \<Rightarrow> Inl e
      | Inr cl \<Rightarrow>
          if \<not> cl then
            (let id = Rx_get_id rx in
             case ch_audit a id of
               None \<Rightarrow>
                 Inr (a\<lparr>ch_audit := (ch_audit a)(id \<mapsto> \<lparr>state = Rx, vec = [length (choices a)]\<rparr>),
                        choices := choices a @ [ChoiceRecv rx fn]\<rparr>)
             | Some au \<Rightarrow>
                 if state au = Rx then
                   Inr (a\<lparr>ch_audit := (ch_audit a)(id \<mapsto> au\<lparr>vec := vec au @ [length (choices a)]\<rparr>),
                          choices := choices a @ [ChoiceRecv rx fn]\<rparr>)
                 else Inr (a\<lparr>ch_audit := (ch_audit a)(id \<mapsto> au\<lparr>state := Clash\<rparr>)\<rparr>))
          else Inr a)"

text \<open>
  \<open>Alt::timeout_impl\<close>: the timer is copied and the copy reset, at the clock reading
  \<open>now\<close>; a strictly earlier time point replaces the deadline and the closure.
\<close>

definition timeout_impl :: "int \<Rightarrow> Timer \<Rightarrow> 'f option \<Rightarrow> ('i, 'f) Alt \<Rightarrow> ('i, 'f) Alt" where
  "timeout_impl now timer fn a =
     (let new_timer = Timer_reset now timer in
      if Timer_get new_timer < alt_time_point a
      then a\<lparr>alt_time_point := Timer_get new_timer, timer_fn := fn\<rparr>
      else a)"

text \<open>
  The public builder methods \<open>send_if\<close>, \<open>recv_if\<close> and \<open>timeout_if\<close> call the
  implementation when the guard holds; \<open>send\<close>, \<open>recv\<close> and \<open>timeout\<close> are the same
  with the guard true. A builder call carries what it reads from outside the Alt: the
  channel heap, or the clock.
\<close>

datatype ('i, 'f) builder_call =
    SendIf bool chan_heap Tx 'i "'f option"
  | RecvIf bool chan_heap Rx "'f option"
  | TimeoutIf bool int Timer "'f option"

fun apply_call :: "('i, 'f) builder_call \<Rightarrow> ('i, 'f) Alt \<Rightarrow> fault + ('i, 'f) Alt" where
  "apply_call (SendIf guard h tx item fn) a = (if guard then send_impl h tx item fn a else Inr a)"
| "apply_call (RecvIf guard h rx fn) a = (if guard then recv_impl h rx fn a else Inr a)"
| "apply_call (TimeoutIf guard now timer fn) a =
     (if guard then Inr (timeout_impl now timer fn a) else Inr a)"

text \<open>A chain of builder calls on one Alt; a fault ends it.\<close>

fun build :: "('i, 'f) Alt \<Rightarrow> ('i, 'f) builder_call list \<Rightarrow> fault + ('i, 'f) Alt" where
  "build a [] = Inr a"
| "build a (c # cs) = (case apply_call c a of Inl e \<Rightarrow> Inl e | Inr a' \<Rightarrow> build a' cs)"

text \<open>
  Modelled from the spec: the choices that \<open>Alt::select\<close> enters (src/alt.cpp is not
  among the sources). "Phase 1 - Enter. For each choice whose channel-id is not in
  Clash, call end.alt_enter": these are the choices that can be selected.
\<close>

definition enter_set :: "('i, 'f) Alt \<Rightarrow> ('i, 'f) Choice list" where
  "enter_set a =
     filter (\<lambda>c. case ch_audit a (choice_id c) of None \<Rightarrow> True | Some au \<Rightarrow> state au \<noteq> Clash)
       (choices a)"

text \<open>The time points of the timers a chain of calls registers, each as reset at its call.\<close>

fun timeout_calls :: "('i, 'f) builder_call list \<Rightarrow> (int \<times> 'f option) list" where
  "timeout_calls [] = []"
| "timeout_calls (TimeoutIf guard now timer fn # cs) =
     (if guard then (Timer_get (Timer_reset now timer), fn) # timeout_calls cs
      else timeout_calls cs)"
| "timeout_calls (c # cs) = timeout_calls cs"

subsection \<open>What the audit records, for stating the builder's properties\<close>

text \<open>The state of the audit entry of a channel-id, if there is one.\<close>

definition audit_state :: "('i, 'f) Alt \<Rightarrow> ChannelId \<Rightarrow> State option" where
  "audit_state a i = map_option state (ch_audit a i)"

text \<open>Every choice of the Alt on this channel-id is a send, respectively a receive.\<close>

definition only_sends :: "('i, 'f) Alt \<Rightarrow> ChannelId \<Rightarrow> bool" where
  "only_sends a i = (\<forall>c\<in>set (choices a). choice_id c = i \<longrightarrow> is_send c)"

definition only_recvs :: "('i, 'f) Alt \<Rightarrow> ChannelId \<Rightarrow> bool" where
  "only_recvs a i = (\<forall>c\<in>set (choices a). choice_id c = i \<longrightarrow> \<not> is_send c)"

text \<open>
  The invariant of the builder: the audit state of a channel-id tells which choices on
  it the Alt holds.
\<close>

definition audit_consistent :: "('i, 'f) Alt \<Rightarrow> bool" where
  "audit_consistent a =
     (\<forall>i. (audit_state a i = None \<longrightarrow> only_sends a i \<and> only_recvs a i) \<and>
          (audit_state a i = Some Tx \<longrightarrow> only_sends a i) \<and>
          (audit_state a i = Some Rx \<longrightarrow> only_recvs a i) \<and>
          (only_sends a i \<or> only_recvs a i))"

text \<open>How an accepted send, respectively receive, moves the audit state of its channel-id.\<close>

fun after_send :: "State option \<Rightarrow> State option" where
  "after_send None = Some Tx"
| "after_send (Some Tx) = Some Tx"
| "after_send (Some Rx) = Some Clash"
| "after_send (Some Clash) = Some Clash"

fun after_recv :: "State option \<Rightarrow> State option" where
  "after_recv None = Some Rx"
| "after_recv (Some Rx) = Some Rx"
| "after_recv (Some Tx) = Some Clash"
| "after_recv (Some Clash) = Some Clash"

text \<open>
  The last clause of the claim on timeouts, as the spec words it: the stored closure is
  the closure of a registered timer whose time point is the deadline.
\<close>

definition closure_of_minimal_timer :: "('i, 'f) builder_call list \<Rightarrow> ('i, 'f) Alt \<Rightarrow> bool" where
  "closure_of_minimal_timer calls a =
     list_ex (\<lambda>p. fst p = alt_time_point a \<and> snd p = timer_fn a) (timeout_calls calls)"

section \<open>Fiber entry (src/context.cpp, proxc/exceptions.hpp)\<close>

text \<open>
  \<open>UnreachableError\<close> is a \<open>std::system_error\<close>: an error code and a message. Its default
  constructor gives \<open>state_not_recoverable\<close> and "unreachable".
\<close>

datatype errc = state_not_recoverable | other_errc nat

datatype error =
    UnreachableError errc string
  | AssertionFailed string
  | EmptyDelegateCall

definition UnreachableError_default :: error where
  "UnreachableError_default = UnreachableError state_not_recoverable ''unreachable''"

text \<open>
  What running a piece of fiber code comes to: it returns, it throws, or control leaves
  through a context switch and never comes back.
\<close>

datatype 's outcome = Returned 's | Raised error | NoReturn

text \<open>
  \<open>Context::trampoline_\<close>, the function every Scheduler and Work fiber starts in.
  \<open>BOOST_ASSERT\<close> aborts with its message when assertions are compiled in
  (\<open>asserts\<close>), and is nothing otherwise.
\<close>

definition trampoline ::
  "bool \<Rightarrow> ('v \<Rightarrow> 's outcome) option \<Rightarrow> 'v \<Rightarrow> 's outcome" where
  "trampoline asserts entry_fn vp =
     (case entry_fn of
        None \<Rightarrow> Raised (if asserts then AssertionFailed ''entry_fn_ != nullptr'' else EmptyDelegateCall)
      | Some f \<Rightarrow>
          (case f vp of
             Returned s \<Rightarrow>
               if asserts
               then Raised (AssertionFailed
                 ''unreachable: Context should not return from entry_func_( ).'')
               else Raised (UnreachableError state_not_recoverable ''unreachable'')
           | Raised e \<Rightarrow> Raised e
           | NoReturn \<Rightarrow> NoReturn))"

text \<open>The fatal conditions that report "unreachable".\<close>

fun is_unreachable :: "error \<Rightarrow> bool" where
  "is_unreachable (UnreachableError ec what) = (what = ''unreachable'')"
| "is_unreachable (AssertionFailed msg) = (take 11 msg = ''unreachable'')"
| "is_unreachable EmptyDelegateCall = False"

section \<open>Fibers, the scheduler and the work-stealing policy\<close>

text \<open>
  From proxc/runtime/context.hpp, src/context.cpp, src/scheduler.cpp,
  src/scheduling_policy/work_stealing.cpp and proxc/detail/num_cpus.hpp. Fibers,
  schedulers and spinlocks are named by their addresses, natural numbers. A scheduler
  and its policy are one worker; the worker's number is the policy's \<open>id_\<close>. The
  \<open>BOOST_ASSERT\<close>s of these files are not part of the model: they check, and vanish
  from a release build.
\<close>

subsection \<open>Context\<close>

text \<open>
  \<open>Context::Type\<close> is a bit mask, and \<open>is_type\<close> tests for a common bit.
\<close>

definition Type_None :: nat where "Type_None = 1"
definition Type_Main :: nat where "Type_Main = 2"
definition Type_Scheduler :: nat where "Type_Scheduler = 4"
definition Type_Work :: nat where "Type_Work = 8"
definition Type_Static :: nat where "Type_Static = Type_Main OR Type_Scheduler"
definition Type_Dynamic :: nat where "Type_Dynamic = Type_Work"
definition Type_Process :: nat where "Type_Process = Type_Main OR Type_Dynamic"

record Context =
  ctx_type :: nat
  terminated_flag :: bool
  scheduler :: "nat option"
  ctx_use_count :: nat
  time_point :: int
  alt :: "nat option"

definition is_type :: "nat \<Rightarrow> Context \<Rightarrow> bool" where
  "is_type t c = ((t AND ctx_type c) \<noteq> 0)"

subsection \<open>The state of all workers\<close>

text \<open>
  The calls that the theorems on ordering speak about. Each of these functions appends
  its name to the ghost field \<open>call_log\<close> when it is entered; nothing reads the field.
\<close>

datatype call =
    CleanupTerminated
  | TransitionRemote
  | WakeupSleep
  | PickNext
  | Schedule nat
  | Resume nat
  | SuspendUntil int

text \<open>
  An intrusive list holds the fibers themselves; here it is the list of their addresses,
  front first. The queues of a scheduler and of its policy are indexed by the worker.
  \<open>deque\<close> has the thieves' end first and the owner's end last. \<open>drawn\<close> counts the
  random numbers a worker's thread has drawn, \<open>notified\<close> the notifications of its
  barrier, \<open>locked\<close> tells which spinlocks are held.
\<close>

record World =
  ctxs :: "nat \<Rightarrow> Context"
  deleted :: "nat set"
  work_queue :: "nat \<Rightarrow> nat list"
  sleep_queue :: "nat \<Rightarrow> nat list"
  terminated_queue :: "nat \<Rightarrow> nat list"
  remote_queue :: "nat \<Rightarrow> nat list"
  deque :: "nat \<Rightarrow> nat list"
  ready_queue :: "nat \<Rightarrow> nat list"
  exit_flag :: "nat \<Rightarrow> bool"
  running :: "nat \<Rightarrow> nat"
  main_ctx :: "nat \<Rightarrow> nat"
  scheduler_ctx :: "nat \<Rightarrow> nat"
  notified :: "nat \<Rightarrow> nat"
  locked :: "nat \<Rightarrow> bool"
  drawn :: "nat \<Rightarrow> nat"
  num_workers :: nat
  call_log :: "call list"

definition log_call :: "call \<Rightarrow> World \<Rightarrow> World" where
  "log_call e w = w\<lparr>call_log := call_log w @ [e]\<rparr>"

subsection \<open>Hooks\<close>

text \<open>
  A hook is in one container at most and unlinks itself from the container it is in:
  \<open>try_unlink< hook::Sleep >\<close> takes the fiber out of whichever sleep-set holds it,
  \<open>unlink< hook::Work >\<close> out of whichever work-list.
\<close>

definition try_unlink_Sleep :: "nat \<Rightarrow> World \<Rightarrow> World" where
  "try_unlink_Sleep c w = w\<lparr>sleep_queue := (\<lambda>s. removeAll c (sleep_queue w s))\<rparr>"

definition unlink_Work :: "nat \<Rightarrow> World \<Rightarrow> World" where
  "unlink_Work c w = w\<lparr>work_queue := (\<lambda>s. removeAll c (work_queue w s))\<rparr>"

text \<open>
  Modelled from the spec: the order of the sleep-set ("sleep-set keyed by deadline";
  the comparator is declared in proxc/runtime/scheduler.hpp, which is not among the
  sources). \<open>link( sleep_queue_ )\<close> inserts into a multiset, after the entries that are
  not later.
\<close>

definition link_sleep :: "nat \<Rightarrow> nat \<Rightarrow> World \<Rightarrow> World" where
  "link_sleep s c w =
     w\<lparr>sleep_queue := (sleep_queue w)(s :=
         takeWhile (\<lambda>d. time_point (ctxs w d) \<le> time_point (ctxs w c)) (sleep_queue w s) @
         c # dropWhile (\<lambda>d. time_point (ctxs w d) \<le> time_point (ctxs w c)) (sleep_queue w s))\<rparr>"

subsection \<open>Scheduler::attach, Scheduler::detach\<close>

definition attach :: "nat \<Rightarrow> nat \<Rightarrow> World \<Rightarrow> World" where
  "attach s c w =
     w\<lparr>work_queue := (work_queue w)(s := work_queue w s @ [c]),
       ctxs := (ctxs w)(c := (ctxs w c)\<lparr>scheduler := Some s\<rparr>)\<rparr>"

definition detach :: "nat \<Rightarrow> World \<Rightarrow> World" where
  "detach c w =
     (let w1 = unlink_Work c w
      in w1\<lparr>ctxs := (ctxs w1)(c := (ctxs w1 c)\<lparr>scheduler := None\<rparr>)\<rparr>)"

subsection \<open>The work-stealing policy\<close>

text \<open>\<open>num_cpus\<close>, from what \<open>std::thread::hardware_concurrency()\<close> reports.\<close>

definition num_cpus :: "nat \<Rightarrow> nat" where
  "num_cpus n = (if n > 1 then n else 1)"

text \<open>\<open>WorkStealing::init_\<close>\<close>

definition init :: "nat \<Rightarrow> World \<Rightarrow> World" where
  "init hardware_concurrency w = w\<lparr>num_workers := num_cpus hardware_concurrency\<rparr>"

text \<open>
  Modelled from the spec: the deque of the policy (proxc/work_steal_deque.hpp is not
  among the sources). "Chase-Lev or equivalent; owner uses LIFO, thieves FIFO":
  \<open>push\<close> and \<open>pop\<close> work at the owner's end, \<open>steal\<close> at the other; both answer null
  on an empty deque.
\<close>

definition deque_push :: "nat \<Rightarrow> nat list \<Rightarrow> nat list" where
  "deque_push c d = d @ [c]"

definition deque_pop :: "nat list \<Rightarrow> nat option \<times> nat list" where
  "deque_pop d = (if d = [] then (None, d) else (Some (last d), butlast d))"

definition deque_steal :: "nat list \<Rightarrow> nat option \<times> nat list" where
  "deque_steal d = (case d of [] \<Rightarrow> (None, d) | c # r \<Rightarrow> (Some c, r))"

text \<open>\<open>WorkStealing::notify\<close>\<close>

definition notify :: "nat \<Rightarrow> World \<Rightarrow> World" where
  "notify s w = w\<lparr>notified := (notified w)(s := Suc (notified w s))\<rparr>"


text \<open>
  \<open>WorkStealing::take_id\<close>. The distribution is over \<open>0 .. num_workers_ - 1\<close>, in
  \<open>std::size_t\<close>. \<open>draws k\<close> is the \<open>k\<close>-th number that \<open>distr( rng )\<close> yields on the
  calling thread. The loop draws until the number is not the worker's own \<open>id_\<close>, and
  need not end: it returns \<open>None\<close> when it does not.
\<close>

definition distr_max :: "nat \<Rightarrow> nat" where
  "distr_max n = (n + 2 ^ 64 - 1) mod 2 ^ 64"

partial_function (option) take_id_loop :: "(nat \<Rightarrow> nat) \<Rightarrow> nat \<Rightarrow> nat \<Rightarrow> (nat \<times> nat) option" where
  "take_id_loop draws me k =
     (if draws k = me then take_id_loop draws me (Suc k) else Some (draws k, Suc k))"

definition take_id :: "(nat \<Rightarrow> nat) \<Rightarrow> nat \<Rightarrow> World \<Rightarrow> (nat \<times> World) option" where
  "take_id draws s w =
     (case take_id_loop draws s (drawn w s) of
        None \<Rightarrow> None
      | Some (v, k) \<Rightarrow> Some (v, w\<lparr>drawn := (drawn w)(s := k)\<rparr>))"

text \<open>\<open>WorkStealing::enqueue\<close>; \<open>Scheduler::self()\<close> is the worker \<open>s\<close> itself.\<close>

definition enqueue :: "nat \<Rightarrow> nat \<Rightarrow> World \<Rightarrow> World" where
  "enqueue s c w =
     (if is_type Type_Dynamic (ctxs w c) then
        (let w1 = detach c w in w1\<lparr>deque := (deque w1)(s := deque_push c (deque w1 s))\<rparr>)
      else w\<lparr>ready_queue := (ready_queue w)(s := ready_queue w s @ [c])\<rparr>)"

text \<open>\<open>WorkStealing::pick_next\<close>; the result is the fiber, or null.\<close>

definition pick_next :: "(nat \<Rightarrow> nat) \<Rightarrow> nat \<Rightarrow> World \<Rightarrow> (nat option \<times> World) option" where
  "pick_next draws s w0 =
     (let w = log_call PickNext w0 in
      case deque_pop (deque w s) of
        (Some c, d) \<Rightarrow> Some (Some c, attach s c (w\<lparr>deque := (deque w)(s := d)\<rparr>))
      | (None, d) \<Rightarrow>
          if ready_queue w s \<noteq> [] then
            Some (Some (hd (ready_queue w s)),
                  w\<lparr>ready_queue := (ready_queue w)(s := tl (ready_queue w s))\<rparr>)
          else
            (case take_id draws s w of
               None \<Rightarrow> None
             | Some (v, w1) \<Rightarrow>
                 (case deque_steal (deque w1 v) of
                    (Some c, d') \<Rightarrow> Some (Some c, attach s c (w1\<lparr>deque := (deque w1)(v := d')\<rparr>))
                  | (None, d') \<Rightarrow> Some (None, w1))))"

subsection \<open>Scheduling a fiber\<close>

text \<open>\<open>Scheduler::schedule_local_\<close>\<close>

definition schedule_local :: "nat \<Rightarrow> nat \<Rightarrow> World \<Rightarrow> World" where
  "schedule_local s c w = enqueue s c (try_unlink_Sleep c w)"

text \<open>
  Modelled from the spec: the remote inbox (proxc/detail/mpsc_queue.hpp is not among the
  sources), a queue that \<open>push\<close> fills at one end and \<open>pop\<close> empties at the other.
\<close>

definition mpsc_push :: "nat \<Rightarrow> nat list \<Rightarrow> nat list" where
  "mpsc_push c q = q @ [c]"

text \<open>\<open>Scheduler::schedule_remote_\<close>, run on the scheduler \<open>s'\<close> that owns the fiber.\<close>

definition schedule_remote :: "nat \<Rightarrow> nat \<Rightarrow> World \<Rightarrow> World" where
  "schedule_remote s' c w =
     notify s' (w\<lparr>remote_queue := (remote_queue w)(s' := mpsc_push c (remote_queue w s'))\<rparr>)"

text \<open>
  \<open>Scheduler::schedule\<close>. With a fiber that no scheduler owns the comparison fails and
  the call goes through the null \<open>scheduler_\<close>.
\<close>

definition schedule :: "nat \<Rightarrow> nat \<Rightarrow> World \<Rightarrow> fault + World" where
  "schedule s c w0 =
     (let w = log_call (Schedule c) w0 in
      case scheduler (ctxs w c) of
        None \<Rightarrow> Inl NullDereference
      | Some s' \<Rightarrow> if s' = s then Inr (schedule_local s c w) else Inr (schedule_remote s' c w))"

text \<open>
  \<open>Scheduler::resume_\<close> up to the context switch: the fiber \<open>c\<close> becomes the running
  one and control passes to it.
\<close>

definition resume :: "nat \<Rightarrow> nat \<Rightarrow> World \<Rightarrow> World" where
  "resume s c w = log_call (Resume c) (w\<lparr>running := (running w)(s := c)\<rparr>)"

text \<open>
  \<open>CtxSwitchData\<close> and \<open>Scheduler::resolve_ctx_switch_data_\<close>, which runs in a fiber
  when control comes back to it; \<open>None\<close> is the null pointer.
\<close>

record CtxSwitchData =
  ctx :: "nat option"
  splk :: "nat option"

definition resolve_ctx_switch_data :: "CtxSwitchData option \<Rightarrow> nat \<Rightarrow> World \<Rightarrow> fault + World" where
  "resolve_ctx_switch_data data s w =
     (case data of
        None \<Rightarrow> Inr w
      | Some d \<Rightarrow>
          (case (case ctx d of None \<Rightarrow> Inr w | Some c \<Rightarrow> schedule s c w) of
             Inl e \<Rightarrow> Inl e
           | Inr w1 \<Rightarrow>
               (case splk d of
                  None \<Rightarrow> Inr w1
                | Some l \<Rightarrow> Inr (w1\<lparr>locked := (locked w1)(l := False)\<rparr>))))"

subsection \<open>The phases of the scheduler loop\<close>

text \<open>
  \<open>intrusive_ptr_release\<close>: the counter is a \<open>std::size_t\<close>; the fiber is deleted by
  the call that finds the count at one.
\<close>

definition intrusive_ptr_release :: "nat \<Rightarrow> World \<Rightarrow> World" where
  "intrusive_ptr_release c w =
     (let old = ctx_use_count (ctxs w c);
          w1 = w\<lparr>ctxs := (ctxs w)(c := (ctxs w c)\<lparr>ctx_use_count := (old + 2 ^ 64 - 1) mod 2 ^ 64\<rparr>)\<rparr>
      in if old \<noteq> 1 then w1 else w1\<lparr>deleted := insert c (deleted w1)\<rparr>)"

lemma intrusive_ptr_release_terminated_queue [simp]:
  "terminated_queue (intrusive_ptr_release c w) = terminated_queue w"
  by (simp add: intrusive_ptr_release_def Let_def)




lemma schedule_local_remote_queue [simp]:
  "remote_queue (schedule_local s c w) = remote_queue w"
  by (simp add: schedule_local_def enqueue_def detach_def unlink_Work_def try_unlink_Sleep_def
      Let_def)




lemma schedule_sleep_queue_length:
  "schedule s c w = Inr w' \<Longrightarrow> length (sleep_queue w' s) \<le> length (sleep_queue w s)"
  by (auto simp: schedule_def schedule_local_def schedule_remote_def enqueue_def detach_def
      unlink_Work_def try_unlink_Sleep_def notify_def log_call_def Let_def
      split: option.splits if_splits intro: le_trans [OF length_removeAll_less_eq])

text \<open>
  \<open>Scheduler::wakeup_sleep_\<close>: the \<open>while\<close> loop from the front of the sleep-set,
  with the clock reading \<open>now\<close> taken once before it. \<open>try_timeout al\<close> is what
  \<open>alt_->try_timeout()\<close> answers for the Alt \<open>al\<close>; a fiber waits in one Alt at most,
  so within a pass an Alt is asked once. The scheduler's spinlock, held for the pass, is
  left out: one thread is modelled.
\<close>

function wakeup_sleep_loop :: "(nat \<Rightarrow> bool) \<Rightarrow> int \<Rightarrow> nat \<Rightarrow> World \<Rightarrow> fault + World" where
  "wakeup_sleep_loop try_timeout now s w =
     (case sleep_queue w s of
        [] \<Rightarrow> Inr w
      | c # rest \<Rightarrow>
          if time_point (ctxs w c) > now then Inr w
          else
            (let w1 = w\<lparr>sleep_queue := (sleep_queue w)(s := rest),
                       ctxs := (ctxs w)(c := (ctxs w c)\<lparr>time_point := TimePointT_max\<rparr>)\<rparr>
             in if (case alt (ctxs w1 c) of None \<Rightarrow> True | Some al \<Rightarrow> try_timeout al)
                then (case schedule s c w1 of
                        Inl e \<Rightarrow> Inl e
                      | Inr w2 \<Rightarrow> wakeup_sleep_loop try_timeout now s w2)
                else wakeup_sleep_loop try_timeout now s w1))"
  by pat_completeness auto
termination
proof (relation "measure (\<lambda>(tt, now, s, w). length (sleep_queue w s))", goal_cases)
  case 1
  then show ?case by simp
next
  case (2 try_timeout now s w c rest w1 w2)
  then show ?case
    using schedule_sleep_queue_length [of s c w1 w2] by simp
next
  case (3 try_timeout now s w c rest w1)
  then show ?case by simp
qed

declare wakeup_sleep_loop.simps [simp del]

definition wakeup_sleep :: "(nat \<Rightarrow> bool) \<Rightarrow> int \<Rightarrow> nat \<Rightarrow> World \<Rightarrow> fault + World" where
  "wakeup_sleep try_timeout now s w = wakeup_sleep_loop try_timeout now s (log_call WakeupSleep w)"


subsection \<open>One turn of the scheduler loop\<close>




subsection \<open>Timed waits\<close>

text \<open>
  How a call of \<open>Scheduler::sleep_until\<close> goes on: it returns at once with a value, or
  the fiber is suspended and control is switched to another fiber.
\<close>

datatype sleep_step = Woke bool World | Suspended nat World

text \<open>
  \<open>Scheduler::sleep_until\<close> up to its return or to the context switch; \<open>now\<close> is the
  clock as the call reads it. \<open>resume( data )\<close> switches to the fiber that \<open>pick_next\<close>
  gives, through a null pointer if it gives none.
\<close>

definition sleep_until ::
  "(nat \<Rightarrow> nat) \<Rightarrow> int \<Rightarrow> int \<Rightarrow> CtxSwitchData option \<Rightarrow> nat \<Rightarrow> World
     \<Rightarrow> (fault + sleep_step) option" where
  "sleep_until draws now tp data s w =
     (let running_ctx = running w s in
      if now < tp then
        (let w1 = w\<lparr>ctxs := (ctxs w)(running_ctx := (ctxs w running_ctx)\<lparr>time_point := tp\<rparr>)\<rparr>;
             w2 = link_sleep s running_ctx w1
         in case pick_next draws s w2 of
              None \<Rightarrow> None
            | Some (None, w3) \<Rightarrow> Some (Inl NullDereference)
            | Some (Some c, w3) \<Rightarrow> Some (Inr (Suspended c (resume s c w3))))
      else Some (Inr (Woke True w)))"

text \<open>
  The rest of \<open>sleep_until\<close>, when the fiber runs again: the data of the switch back is
  resolved, the deadline is reset and the clock, now \<open>now'\<close>, is compared.
\<close>

definition sleep_until_resumed ::
  "int \<Rightarrow> int \<Rightarrow> CtxSwitchData option \<Rightarrow> nat \<Rightarrow> World \<Rightarrow> fault + (bool \<times> World)" where
  "sleep_until_resumed now' tp data' s w =
     (case resolve_ctx_switch_data data' s w of
        Inl e \<Rightarrow> Inl e
      | Inr w1 \<Rightarrow>
          Inr (now' \<ge> tp,
               w1\<lparr>ctxs := (ctxs w1)(running w1 s :=
                     (ctxs w1 (running w1 s))\<lparr>time_point := TimePointT_max\<rparr>)\<rparr>))"

text \<open>The three overloads of \<open>Scheduler::wait_until\<close>, up to the same point.\<close>

definition wait_until ::
  "(nat \<Rightarrow> nat) \<Rightarrow> int \<Rightarrow> int \<Rightarrow> nat \<Rightarrow> World \<Rightarrow> (fault + sleep_step) option" where
  "wait_until draws now tp s w = sleep_until draws now tp None s w"

definition wait_until_ctx ::
  "(nat \<Rightarrow> nat) \<Rightarrow> int \<Rightarrow> int \<Rightarrow> nat \<Rightarrow> nat \<Rightarrow> World \<Rightarrow> (fault + sleep_step) option" where
  "wait_until_ctx draws now tp c s w =
     sleep_until draws now tp (Some \<lparr>ctx = Some c, splk = None\<rparr>) s w"

definition wait_until_lock ::
  "(nat \<Rightarrow> nat) \<Rightarrow> int \<Rightarrow> int \<Rightarrow> nat \<Rightarrow> bool \<Rightarrow> nat \<Rightarrow> World \<Rightarrow> (fault + sleep_step) option" where
  "wait_until_lock draws now tp l lock s w =
     (case sleep_until draws now tp (Some \<lparr>ctx = None, splk = Some l\<rparr>) s w of
        Some (Inr (Woke ret w')) \<Rightarrow>
          Some (Inr (Woke ret (if \<not> ret \<and> lock then w'\<lparr>locked := (locked w')(l := True)\<rparr> else w')))
      | r \<Rightarrow> r)"

subsection \<open>Scheduler::alt_wait\<close>

text \<open>
  \<open>Scheduler::alt_wait\<close> up to the context switch. \<open>al\<close> is the address of the Alt,
  \<open>alt_ctx\<close> and \<open>alt_tp\<close> are what its members \<open>ctx_\<close> and \<open>time_point_\<close> hold, \<open>l\<close> is
  the spinlock handed over with the switch. The clock is not read before the switch: a
  deadline before \<open>TimePointT::max()\<close> links the fiber into the sleep-set.
\<close>

definition alt_wait ::
  "(nat \<Rightarrow> nat) \<Rightarrow> nat \<Rightarrow> nat \<Rightarrow> int \<Rightarrow> nat \<Rightarrow> nat \<Rightarrow> World \<Rightarrow> (fault + sleep_step) option" where
  "alt_wait draws al alt_ctx alt_tp l s w =
     (let w1 = (if alt_tp < TimePointT_max then
                  link_sleep s alt_ctx
                    (w\<lparr>ctxs := (ctxs w)(alt_ctx :=
                          (ctxs w alt_ctx)\<lparr>alt := Some al, time_point := alt_tp\<rparr>)\<rparr>)
                else w)
      in case pick_next draws s w1 of
           None \<Rightarrow> None
         | Some (None, w2) \<Rightarrow> Some (Inl NullDereference)
         | Some (Some c, w2) \<Rightarrow> Some (Inr (Suspended c (resume s c w2))))"

text \<open>
  The rest of \<open>alt_wait\<close>, when the fiber runs again: the data of the switch back is
  resolved, the back-pointer and the deadline are reset, the fiber is taken out of the
  sleep-set if it is still there, and the clock, now \<open>now'\<close>, is compared.
\<close>

definition alt_wait_resumed ::
  "int \<Rightarrow> nat \<Rightarrow> int \<Rightarrow> CtxSwitchData option \<Rightarrow> nat \<Rightarrow> World \<Rightarrow> fault + (bool \<times> World)" where
  "alt_wait_resumed now' alt_ctx alt_tp data' s w =
     (case resolve_ctx_switch_data data' s w of
        Inl e \<Rightarrow> Inl e
      | Inr w1 \<Rightarrow>
          Inr (alt_tp \<le> now',
               try_unlink_Sleep alt_ctx
                 (w1\<lparr>ctxs := (ctxs w1)(alt_ctx :=
                       (ctxs w1 alt_ctx)\<lparr>alt := None, time_point := TimePointT_max\<rparr>)\<rparr>)))"

subsection \<open>Timed send and receive\<close>

text \<open>
  The rendezvous slot of a channel, with the fiber that waits or offers in it. The
  slots are kept beside the heap, by the address of the channel.
\<close>

datatype SlotState = SlotNone | TxWaiting nat | RxWaiting nat | AltTxOffered nat | AltRxOffered nat

text \<open>
  How a timed operation on a channel goes on: it returns its result, or the fiber is
  suspended and control is switched to another fiber.
\<close>

datatype timed_step = Done OpResult | Blocked nat

text \<open>
  Modelled from the spec: what \<open>ChannelImpl::send_until\<close> and
  \<open>ChannelImpl::recv_until\<close> do once their wait has returned (proxc/channel/sync.hpp
  is not among the sources). "On timeout, atomically remove own offer under slot lock
  and return Timeout"; "on wake, the partner has moved x out; return Ok. If woken by
  close, return Closed". \<open>ret\<close> is what \<open>wait_until\<close> returned, \<open>l\<close> the spinlock of the
  slot, released on return.
\<close>

definition ChannelImpl_woken ::
  "bool \<Rightarrow> nat \<Rightarrow> nat \<Rightarrow> chan_heap \<Rightarrow> (nat \<Rightarrow> SlotState) \<Rightarrow> World
     \<Rightarrow> timed_step \<times> (nat \<Rightarrow> SlotState) \<times> World" where
  "ChannelImpl_woken ret c l h sl w =
     (let w1 = w\<lparr>locked := (locked w)(l := False)\<rparr> in
      if ret then (Done Timeout, sl(c := SlotNone), w1)
      else if (case h c of None \<Rightarrow> False | Some ch \<Rightarrow> closed ch) then (Done Closed, sl, w1)
      else (Done Ok, sl, w1))"

text \<open>
  Modelled from the spec: \<open>ChannelImpl::send_until\<close>, on the fiber running on worker
  \<open>s\<close>. "If closed, return Closed. Acquire slot spinlock. Inspect S. S = None: install
  (TxWaiting, self, &x); suspend with lock hand-off"; "if suspending with a deadline,
  also link self into sleep-set", which is \<open>Scheduler::wait_until\<close> with the lock of the
  slot. What the call does with a slot that holds a partner is the parameter \<open>partner\<close>.
\<close>

definition ChannelImpl_send_until ::
  "(nat \<Rightarrow> (nat \<Rightarrow> SlotState) \<Rightarrow> World \<Rightarrow> timed_step \<times> (nat \<Rightarrow> SlotState) \<times> World)
     \<Rightarrow> (nat \<Rightarrow> nat) \<Rightarrow> int \<Rightarrow> int \<Rightarrow> nat \<Rightarrow> nat \<Rightarrow> nat \<Rightarrow> chan_heap \<Rightarrow> (nat \<Rightarrow> SlotState) \<Rightarrow> World
     \<Rightarrow> (fault + timed_step \<times> (nat \<Rightarrow> SlotState) \<times> World) option" where
  "ChannelImpl_send_until partner draws now tp c l s h sl w =
     (case h c of
        None \<Rightarrow> Some (Inl DanglingPointer)
      | Some ch \<Rightarrow>
          if closed ch then Some (Inr (Done Closed, sl, w))
          else
            (let w1 = w\<lparr>locked := (locked w)(l := True)\<rparr> in
             case sl c of
               SlotNone \<Rightarrow>
                 (let sl1 = sl(c := TxWaiting (running w1 s)) in
                  case wait_until_lock draws now tp l True s w1 of
                    None \<Rightarrow> None
                  | Some (Inl e) \<Rightarrow> Some (Inl e)
                  | Some (Inr (Suspended n w2)) \<Rightarrow> Some (Inr (Blocked n, sl1, w2))
                  | Some (Inr (Woke ret w2)) \<Rightarrow> Some (Inr (ChannelImpl_woken ret c l h sl1 w2)))
             | _ \<Rightarrow> Some (Inr (partner c sl w1))))"

text \<open>
  Modelled from the spec: \<open>ChannelImpl::recv_until\<close> ("Recv is symmetric"): the offer
  installed in an empty slot is (RxWaiting, self, &out).
\<close>

definition ChannelImpl_recv_until ::
  "(nat \<Rightarrow> (nat \<Rightarrow> SlotState) \<Rightarrow> World \<Rightarrow> timed_step \<times> (nat \<Rightarrow> SlotState) \<times> World)
     \<Rightarrow> (nat \<Rightarrow> nat) \<Rightarrow> int \<Rightarrow> int \<Rightarrow> nat \<Rightarrow> nat \<Rightarrow> nat \<Rightarrow> chan_heap \<Rightarrow> (nat \<Rightarrow> SlotState) \<Rightarrow> World
     \<Rightarrow> (fault + timed_step \<times> (nat \<Rightarrow> SlotState) \<times> World) option" where
  "ChannelImpl_recv_until partner draws now tp c l s h sl w =
     (case h c of
        None \<Rightarrow> Some (Inl DanglingPointer)
      | Some ch \<Rightarrow>
          if closed ch then Some (Inr (Done Closed, sl, w))
          else
            (let w1 = w\<lparr>locked := (locked w)(l := True)\<rparr> in
             case sl c of
               SlotNone \<Rightarrow>
                 (let sl1 = sl(c := RxWaiting (running w1 s)) in
                  case wait_until_lock draws now tp l True s w1 of
                    None \<Rightarrow> None
                  | Some (Inl e) \<Rightarrow> Some (Inl e)
                  | Some (Inr (Suspended n w2)) \<Rightarrow> Some (Inr (Blocked n, sl1, w2))
                  | Some (Inr (Woke ret w2)) \<Rightarrow> Some (Inr (ChannelImpl_woken ret c l h sl1 w2)))
             | _ \<Rightarrow> Some (Inr (partner c sl w1))))"

text \<open>
  \<open>OpResult send_until( item, time_point ) { EndT tx{ ... }; return
  chan_->send_until( tx, time_point ); }\<close>: no null check.
\<close>

definition Tx_send_until ::
  "(nat \<Rightarrow> (nat \<Rightarrow> SlotState) \<Rightarrow> World \<Rightarrow> timed_step \<times> (nat \<Rightarrow> SlotState) \<times> World)
     \<Rightarrow> (nat \<Rightarrow> nat) \<Rightarrow> int \<Rightarrow> int \<Rightarrow> Tx \<Rightarrow> nat \<Rightarrow> nat \<Rightarrow> chan_heap \<Rightarrow> (nat \<Rightarrow> SlotState) \<Rightarrow> World
     \<Rightarrow> (fault + timed_step \<times> (nat \<Rightarrow> SlotState) \<times> World) option" where
  "Tx_send_until partner draws now tp tx l s h sl w =
     (case chan tx of
        None \<Rightarrow> Some (Inl NullDereference)
      | Some c \<Rightarrow> ChannelImpl_send_until partner draws now tp c l s h sl w)"

text \<open>
  \<open>send_for\<close>: \<open>auto time_point = std::chrono::steady_clock::now() + duration; return
  send_until( item, time_point );\<close>. \<open>now0\<close> is the clock as \<open>send_for\<close> reads it, \<open>now\<close>
  as the wait reads it later.
\<close>

definition Tx_send_for ::
  "(nat \<Rightarrow> (nat \<Rightarrow> SlotState) \<Rightarrow> World \<Rightarrow> timed_step \<times> (nat \<Rightarrow> SlotState) \<times> World)
     \<Rightarrow> (nat \<Rightarrow> nat) \<Rightarrow> int \<Rightarrow> int \<Rightarrow> int \<Rightarrow> Tx \<Rightarrow> nat \<Rightarrow> nat \<Rightarrow> chan_heap \<Rightarrow> (nat \<Rightarrow> SlotState) \<Rightarrow> World
     \<Rightarrow> (fault + timed_step \<times> (nat \<Rightarrow> SlotState) \<times> World) option" where
  "Tx_send_for partner draws now0 now duration tx l s h sl w =
     Tx_send_until partner draws now (now0 + duration) tx l s h sl w"

text \<open>
  \<open>OpResult recv_until( item, time_point ) { EndT rx{ ... }; return
  chan_->recv_until( rx, time_point ); }\<close>: no null check.
\<close>

definition Rx_recv_until ::
  "(nat \<Rightarrow> (nat \<Rightarrow> SlotState) \<Rightarrow> World \<Rightarrow> timed_step \<times> (nat \<Rightarrow> SlotState) \<times> World)
     \<Rightarrow> (nat \<Rightarrow> nat) \<Rightarrow> int \<Rightarrow> int \<Rightarrow> Rx \<Rightarrow> nat \<Rightarrow> nat \<Rightarrow> chan_heap \<Rightarrow> (nat \<Rightarrow> SlotState) \<Rightarrow> World
     \<Rightarrow> (fault + timed_step \<times> (nat \<Rightarrow> SlotState) \<times> World) option" where
  "Rx_recv_until partner draws now tp rx l s h sl w =
     (case chan rx of
        None \<Rightarrow> Some (Inl NullDereference)
      | Some c \<Rightarrow> ChannelImpl_recv_until partner draws now tp c l s h sl w)"

text \<open>
  \<open>recv_for\<close>: \<open>auto time_point = std::chrono::steady_clock::now() + duration; return
  recv_until( item, time_point );\<close>, with the clock read as in \<open>send_for\<close>.
\<close>

definition Rx_recv_for ::
  "(nat \<Rightarrow> (nat \<Rightarrow> SlotState) \<Rightarrow> World \<Rightarrow> timed_step \<times> (nat \<Rightarrow> SlotState) \<times> World)
     \<Rightarrow> (nat \<Rightarrow> nat) \<Rightarrow> int \<Rightarrow> int \<Rightarrow> int \<Rightarrow> Rx \<Rightarrow> nat \<Rightarrow> nat \<Rightarrow> chan_heap \<Rightarrow> (nat \<Rightarrow> SlotState) \<Rightarrow> World
     \<Rightarrow> (fault + timed_step \<times> (nat \<Rightarrow> SlotState) \<times> World) option" where
  "Rx_recv_for partner draws now0 now duration rx l s h sl w =
     Rx_recv_until partner draws now (now0 + duration) rx l s h sl w"

subsection \<open>Example worlds\<close>

text \<open>A world without fibers in any queue.\<close>

definition World_empty :: World where
  "World_empty =
     \<lparr>ctxs = (\<lambda>c. \<lparr>ctx_type = Type_Work, terminated_flag = False, scheduler = None,
                    ctx_use_count = 1, time_point = TimePointT_max, alt = None\<rparr>),
      deleted = {}, work_queue = (\<lambda>s. []), sleep_queue = (\<lambda>s. []),
      terminated_queue = (\<lambda>s. []), remote_queue = (\<lambda>s. []), deque = (\<lambda>s. []),
      ready_queue = (\<lambda>s. []), exit_flag = (\<lambda>s. False), running = (\<lambda>s. 0),
      main_ctx = (\<lambda>s. 0), scheduler_ctx = (\<lambda>s. 1), notified = (\<lambda>s. 0),
      locked = (\<lambda>l. False), drawn = (\<lambda>s. 0), num_workers = 2, call_log = []\<rparr>"

text \<open>
  Worker 0 in its scheduler fiber 1, with the main fiber 0 ready and three Work fibers
  asleep: 2 until 5, 4 until 7 inside an Alt (number 8), 3 until 50.
\<close>

definition World_example :: World where
  "World_example =
     World_empty
       \<lparr>ctxs := (ctxs World_empty)
          (0 := \<lparr>ctx_type = Type_Main, terminated_flag = False, scheduler = Some 0,
                 ctx_use_count = 0, time_point = TimePointT_max, alt = None\<rparr>,
           1 := \<lparr>ctx_type = Type_Scheduler, terminated_flag = False, scheduler = Some 0,
                 ctx_use_count = 0, time_point = TimePointT_max, alt = None\<rparr>,
           2 := \<lparr>ctx_type = Type_Work, terminated_flag = False, scheduler = Some 0,
                 ctx_use_count = 1, time_point = 5, alt = None\<rparr>,
           3 := \<lparr>ctx_type = Type_Work, terminated_flag = False, scheduler = Some 0,
                 ctx_use_count = 1, time_point = 50, alt = None\<rparr>,
           4 := \<lparr>ctx_type = Type_Work, terminated_flag = False, scheduler = Some 0,
                 ctx_use_count = 1, time_point = 7, alt = Some 8\<rparr>),
        work_queue := (\<lambda>s. if s = 0 then [2, 4, 3] else []),
        sleep_queue := (\<lambda>s. if s = 0 then [2, 4, 3] else []),
        ready_queue := (\<lambda>s. if s = 0 then [0] else []),
        running := (\<lambda>s. 1)\<rparr>"

text \<open>
  The example world a moment later: worker 0 runs its main fiber 0, its scheduler fiber 1
  is ready, the three Work fibers are asleep as before.
\<close>

definition World_running :: World where
  "World_running =
     World_example\<lparr>ready_queue := (\<lambda>s. if s = 0 then [1] else []), running := (\<lambda>s. 0)\<rparr>"

text \<open>
  Worker 0 in its scheduler fiber 1 with five fibers in its sleep-set: the Work fiber 2
  until 5, the Work fiber 5, which worker 1 owns, until 6, the Work fiber 4 until 7
  inside an Alt (number 8), its main fiber 0 until 8, and the Work fiber 3 until 50.
\<close>

definition World_sleepers :: World where
  "World_sleepers =
     World_empty
       \<lparr>ctxs := (ctxs World_empty)
          (0 := \<lparr>ctx_type = Type_Main, terminated_flag = False, scheduler = Some 0,
                 ctx_use_count = 0, time_point = 8, alt = None\<rparr>,
           1 := \<lparr>ctx_type = Type_Scheduler, terminated_flag = False, scheduler = Some 0,
                 ctx_use_count = 0, time_point = TimePointT_max, alt = None\<rparr>,
           2 := \<lparr>ctx_type = Type_Work, terminated_flag = False, scheduler = Some 0,
                 ctx_use_count = 1, time_point = 5, alt = None\<rparr>,
           3 := \<lparr>ctx_type = Type_Work, terminated_flag = False, scheduler = Some 0,
                 ctx_use_count = 1, time_point = 50, alt = None\<rparr>,
           4 := \<lparr>ctx_type = Type_Work, terminated_flag = False, scheduler = Some 0,
                 ctx_use_count = 1, time_point = 7, alt = Some 8\<rparr>,
           5 := \<lparr>ctx_type = Type_Work, terminated_flag = False, scheduler = Some 1,
                 ctx_use_count = 1, time_point = 6, alt = None\<rparr>),
        work_queue := (\<lambda>s. if s = 0 then [2, 4, 3] else if s = 1 then [5] else []),
        sleep_queue := (\<lambda>s. if s = 0 then [2, 5, 4, 0, 3] else []),
        running := (\<lambda>s. 1)\<rparr>"

subsection \<open>What a pass over the sleep-set has to do, for stating its properties\<close>

text \<open>The deadline of a fiber is at or before the clock reading \<open>now\<close>.\<close>

definition expired :: "int \<Rightarrow> World \<Rightarrow> nat \<Rightarrow> bool" where
  "expired now w c = (time_point (ctxs w c) \<le> now)"

text \<open>
  The fiber may be scheduled on expiry: it waits in no Alt, or \<open>try_timeout\<close> of its
  Alt answers true. \<open>Alt::try_timeout\<close> (src/alt.cpp, not among the sources) is a
  parameter, its answer given per Alt.
\<close>

definition timeout_won :: "(nat \<Rightarrow> bool) \<Rightarrow> World \<Rightarrow> nat \<Rightarrow> bool" where
  "timeout_won try_timeout w c = (case alt (ctxs w c) of None \<Rightarrow> True | Some al \<Rightarrow> try_timeout al)"

text \<open>
  The invariant of the sleep-set of worker \<open>s\<close>: a fiber is linked once at most, and
  the entries stand in the order of their deadlines.
\<close>

definition sleep_queue_ordered :: "nat \<Rightarrow> World \<Rightarrow> bool" where
  "sleep_queue_ordered s w =
     (distinct (sleep_queue w s) \<and> sorted (map (\<lambda>c. time_point (ctxs w c)) (sleep_queue w s)))"

text \<open>The scheduler that owns the fiber \<open>c\<close> is worker \<open>s'\<close>.\<close>

definition owned_by :: "World \<Rightarrow> nat \<Rightarrow> nat \<Rightarrow> bool" where
  "owned_by w s' c = (scheduler (ctxs w c) = Some s')"

text \<open>
  The fibers that a pass over the sleep-set of worker \<open>s\<close> has to schedule, in the
  order of the sleep-set.
\<close>

definition woken_fibers :: "(nat \<Rightarrow> bool) \<Rightarrow> int \<Rightarrow> nat \<Rightarrow> World \<Rightarrow> nat list" where
  "woken_fibers try_timeout now s w =
     filter (\<lambda>c. expired now w c \<and> timeout_won try_timeout w c) (sleep_queue w s)"

text \<open>
  What one pass of the loop has to establish, for a world \<open>w\<close> and the result \<open>w'\<close>.
  A scheduled fiber stands where \<open>schedule\<close> puts it: a Dynamic fiber of the worker
  itself at the owner's end of its deque, detached; another fiber of the worker at the
  end of its ready list; a fiber of another worker at the end of that worker's remote
  inbox, with a notification of its barrier.
\<close>

definition wakeup_post :: "(nat \<Rightarrow> bool) \<Rightarrow> int \<Rightarrow> nat \<Rightarrow> World \<Rightarrow> World \<Rightarrow> bool" where
  "wakeup_post try_timeout now s w w' =
     (sleep_queue w' s = filter (\<lambda>c. \<not> expired now w c) (sleep_queue w s) \<and>
      (\<forall>c. time_point (ctxs w' c) =
         (if c \<in> set (sleep_queue w s) \<and> expired now w c then TimePointT_max
          else time_point (ctxs w c))) \<and>
      (\<forall>c. alt (ctxs w' c) = alt (ctxs w c)) \<and>
      call_log w' = call_log w @
        map Schedule (filter (\<lambda>c. expired now w c \<and> timeout_won try_timeout w c) (sleep_queue w s)) \<and>
      (\<forall>c. ctx_type (ctxs w' c) = ctx_type (ctxs w c)) \<and>
      (\<forall>c. scheduler (ctxs w' c) =
         (if c \<in> set (woken_fibers try_timeout now s w) \<and> owned_by w s c \<and>
             is_type Type_Dynamic (ctxs w c)
          then None else scheduler (ctxs w c))) \<and>
      deque w' s = deque w s @
        filter (\<lambda>c. owned_by w s c \<and> is_type Type_Dynamic (ctxs w c))
          (woken_fibers try_timeout now s w) \<and>
      ready_queue w' s = ready_queue w s @
        filter (\<lambda>c. owned_by w s c \<and> \<not> is_type Type_Dynamic (ctxs w c))
          (woken_fibers try_timeout now s w) \<and>
      (\<forall>s'. s' \<noteq> s \<longrightarrow>
         remote_queue w' s' = remote_queue w s' @
           filter (owned_by w s') (woken_fibers try_timeout now s w) \<and>
         notified w' s' = notified w s' +
           length (filter (owned_by w s') (woken_fibers try_timeout now s w))))"

subsection \<open>The phases of a turn, for stating their order\<close>





section \<open>Properties of the channel handles\<close>

lemma Tx_close_chan: "chan (fst (Tx_close p)) = None"
  by (cases "chan (fst p)") (simp_all add: Tx_close_def)

lemma Rx_close_chan: "chan (fst (Rx_close p)) = None"
  by (cases "chan (fst p)") (simp_all add: Rx_close_def)

text \<open>
  C8. Closing a handle a second time changes nothing: the handle and every channel
  object, its closed flag included, are as the first \<open>close()\<close> left them. This holds
  for \<open>Tx\<close> and for \<open>Rx\<close>.
\<close>

theorem close_twice_is_noop:
  "Tx_close (Tx_close (tx, h)) = Tx_close (tx, h) \<and>
   Rx_close (Rx_close (rx, h)) = Rx_close (rx, h)"
proof
  have "chan (fst (Tx_close (tx, h))) = None"
    by (rule Tx_close_chan)
  then show "Tx_close (Tx_close (tx, h)) = Tx_close (tx, h)"
    by (simp add: Tx_close_def [of "Tx_close (tx, h)"])
next
  have "chan (fst (Rx_close (rx, h))) = None"
    by (rule Rx_close_chan)
  then show "Rx_close (Rx_close (rx, h)) = Rx_close (rx, h)"
    by (simp add: Rx_close_def [of "Rx_close (rx, h)"])
qed

text \<open>
  The second close at a concrete channel: both handles of a fresh channel at address 7
  are closed twice; the channel stays closed with one reference left after the sender's
  close, and is freed by the receiver's.
\<close>

theorem close_twice_is_noop_witness:
  "Tx_close (Tx_close (fst (fst (create 7 Map.empty)), snd (create 7 Map.empty)))
     = Tx_close (fst (fst (create 7 Map.empty)), snd (create 7 Map.empty)) \<and>
   Rx_close (Rx_close (snd (fst (create 7 Map.empty)), snd (create 7 Map.empty)))
     = Rx_close (snd (fst (create 7 Map.empty)), snd (create 7 Map.empty)) \<and>
   snd (Tx_close (fst (fst (create 7 Map.empty)), snd (create 7 Map.empty))) 7
     = Some \<lparr>closed = True, use_count = 1\<rparr>"
  using close_twice_is_noop [of "fst (fst (create 7 Map.empty))" "snd (create 7 Map.empty)"
      "snd (fst (create 7 Map.empty))"]
  by (simp add: create_def Tx_close_def Rx_close_def ChannelImpl_close_def shared_ptr_reset_def)

text \<open>
  C2. The claim asks that a handle stays usable after its own \<open>close()\<close>, answering
  Closed. In the code \<open>close()\<close> resets \<open>chan_\<close> to null, and \<open>is_closed\<close>, \<open>send\<close> and
  \<open>recv\<close> go through \<open>chan_\<close> without the null check that \<open>close()\<close> itself makes: on
  the closed handle each of them dereferences a null pointer.
\<close>

theorem closed_handle_null_dereference:
  "Tx_is_closed (fst (Tx_close (tx, h))) (snd (Tx_close (tx, h))) = Inl NullDereference \<and>
   Tx_send rendezvous (fst (Tx_close (tx, h))) (snd (Tx_close (tx, h))) = Inl NullDereference \<and>
   Rx_is_closed (fst (Rx_close (rx, h))) (snd (Rx_close (rx, h))) = Inl NullDereference \<and>
   Rx_recv rendezvous (fst (Rx_close (rx, h))) (snd (Rx_close (rx, h))) = Inl NullDereference"
  by (simp add: Tx_is_closed_def Tx_send_def Rx_is_closed_def Rx_recv_def
      Tx_close_chan Rx_close_chan)

text \<open>
  The other handle of the same channel is the one that answers Closed: after the sender
  closed, the receiver's \<open>is_closed\<close> is true and its \<open>recv\<close> returns Closed.
\<close>

lemma peer_handle_sees_closed:
  "Rx_is_closed (snd (fst (create 7 Map.empty)))
     (snd (Tx_close (fst (fst (create 7 Map.empty)), snd (create 7 Map.empty)))) = Inr True \<and>
   map_sum id fst (Rx_recv rendezvous (snd (fst (create 7 Map.empty)))
     (snd (Tx_close (fst (fst (create 7 Map.empty)), snd (create 7 Map.empty))))) = Inr Closed"
  by (simp add: create_def Tx_close_def Rx_is_closed_def Rx_recv_def ChannelImpl_close_def
      ChannelImpl_is_closed_def ChannelImpl_op_def shared_ptr_reset_def)

section \<open>Properties of the Alt builder: the per-channel audit\<close>

lemma send_impl_cases:
  assumes "send_impl h tx item fn a = Inr b"
  shows "(Tx_is_closed tx h = Inr True \<and> b = a) \<or>
         (Tx_is_closed tx h = Inr False \<and> ch_audit a (Tx_get_id tx) = None \<and>
            b = a\<lparr>ch_audit := (ch_audit a)(Tx_get_id tx \<mapsto> \<lparr>state = Tx, vec = [length (choices a)]\<rparr>),
                 choices := choices a @ [ChoiceSend tx item fn]\<rparr>) \<or>
         (\<exists>au. Tx_is_closed tx h = Inr False \<and> ch_audit a (Tx_get_id tx) = Some au \<and> state au = Tx \<and>
            b = a\<lparr>ch_audit := (ch_audit a)(Tx_get_id tx \<mapsto> au\<lparr>vec := vec au @ [length (choices a)]\<rparr>),
                 choices := choices a @ [ChoiceSend tx item fn]\<rparr>) \<or>
         (\<exists>au. Tx_is_closed tx h = Inr False \<and> ch_audit a (Tx_get_id tx) = Some au \<and> state au \<noteq> Tx \<and>
            b = a\<lparr>ch_audit := (ch_audit a)(Tx_get_id tx \<mapsto> au\<lparr>state := Clash\<rparr>)\<rparr>)"
  using assms
  by (auto simp: send_impl_def Let_def split: sum.splits if_splits option.splits)

lemma recv_impl_cases:
  assumes "recv_impl h rx fn a = Inr b"
  shows "(Rx_is_closed rx h = Inr True \<and> b = a) \<or>
         (Rx_is_closed rx h = Inr False \<and> ch_audit a (Rx_get_id rx) = None \<and>
            b = a\<lparr>ch_audit := (ch_audit a)(Rx_get_id rx \<mapsto> \<lparr>state = Rx, vec = [length (choices a)]\<rparr>),
                 choices := choices a @ [ChoiceRecv rx fn]\<rparr>) \<or>
         (\<exists>au. Rx_is_closed rx h = Inr False \<and> ch_audit a (Rx_get_id rx) = Some au \<and> state au = Rx \<and>
            b = a\<lparr>ch_audit := (ch_audit a)(Rx_get_id rx \<mapsto> au\<lparr>vec := vec au @ [length (choices a)]\<rparr>),
                 choices := choices a @ [ChoiceRecv rx fn]\<rparr>) \<or>
         (\<exists>au. Rx_is_closed rx h = Inr False \<and> ch_audit a (Rx_get_id rx) = Some au \<and> state au \<noteq> Rx \<and>
            b = a\<lparr>ch_audit := (ch_audit a)(Rx_get_id rx \<mapsto> au\<lparr>state := Clash\<rparr>)\<rparr>)"
  using assms
  by (auto simp: recv_impl_def Let_def split: sum.splits if_splits option.splits)

lemma send_impl_audit_state:
  assumes "send_impl h tx item fn a = Inr b"
  shows "audit_state b i =
     (if Tx_is_closed tx h = Inr False \<and> i = Tx_get_id tx then after_send (audit_state a i)
      else audit_state a i)"
proof -
  from send_impl_cases [OF assms] show ?thesis
  proof (elim disjE exE conjE)
    fix au
    assume "Tx_is_closed tx h = Inr False" "ch_audit a (Tx_get_id tx) = Some au" "state au \<noteq> Tx"
      "b = a\<lparr>ch_audit := (ch_audit a)(Tx_get_id tx \<mapsto> au\<lparr>state := Clash\<rparr>)\<rparr>"
    then show ?thesis by (cases "state au") (simp_all add: audit_state_def)
  qed (simp_all add: audit_state_def)
qed

lemma recv_impl_audit_state:
  assumes "recv_impl h rx fn a = Inr b"
  shows "audit_state b i =
     (if Rx_is_closed rx h = Inr False \<and> i = Rx_get_id rx then after_recv (audit_state a i)
      else audit_state a i)"
proof -
  from recv_impl_cases [OF assms] show ?thesis
  proof (elim disjE exE conjE)
    fix au
    assume "Rx_is_closed rx h = Inr False" "ch_audit a (Rx_get_id rx) = Some au" "state au \<noteq> Rx"
      "b = a\<lparr>ch_audit := (ch_audit a)(Rx_get_id rx \<mapsto> au\<lparr>state := Clash\<rparr>)\<rparr>"
    then show ?thesis by (cases "state au") (simp_all add: audit_state_def)
  qed (simp_all add: audit_state_def)
qed

lemma timeout_impl_audit:
  "ch_audit (timeout_impl now t fn a) = ch_audit a \<and>
   choices (timeout_impl now t fn a) = choices a"
  by (simp add: timeout_impl_def Let_def)

lemma after_send_sender: "s \<in> {Some Tx, Some Clash} \<Longrightarrow> after_send s \<in> {Some Tx, Some Clash}"
  by auto

lemma after_recv_sender: "s \<in> {Some Tx, Some Clash} \<Longrightarrow> after_recv s \<in> {Some Tx, Some Clash}"
  by auto

lemma after_send_receiver: "s \<in> {Some Rx, Some Clash} \<Longrightarrow> after_send s \<in> {Some Rx, Some Clash}"
  by auto

lemma after_recv_receiver: "s \<in> {Some Rx, Some Clash} \<Longrightarrow> after_recv s \<in> {Some Rx, Some Clash}"
  by auto

lemma after_send_any: "after_send s \<in> {Some Tx, Some Clash}"
  by (cases s rule: after_send.cases) simp_all

lemma after_recv_any: "after_recv s \<in> {Some Rx, Some Clash}"
  by (cases s rule: after_recv.cases) simp_all

lemma apply_call_audit_state:
  assumes "apply_call c a = Inr b"
  shows "audit_state b i =
     (case c of
        SendIf g h tx item fn \<Rightarrow>
          if g \<and> Tx_is_closed tx h = Inr False \<and> i = Tx_get_id tx
          then after_send (audit_state a i) else audit_state a i
      | RecvIf g h rx fn \<Rightarrow>
          if g \<and> Rx_is_closed rx h = Inr False \<and> i = Rx_get_id rx
          then after_recv (audit_state a i) else audit_state a i
      | TimeoutIf g now t fn \<Rightarrow> audit_state a i)"
proof (cases c)
  case (SendIf g h tx item fn)
  then show ?thesis using assms send_impl_audit_state [of h tx item fn a b i]
    by (cases g) auto
next
  case (RecvIf g h rx fn)
  then show ?thesis using assms recv_impl_audit_state [of h rx fn a b i]
    by (cases g) auto
next
  case (TimeoutIf g now t fn)
  then show ?thesis using assms
    by (cases g) (auto simp: audit_state_def timeout_impl_audit)
qed

lemma apply_call_audit_step:
  assumes "apply_call c a = Inr b"
  shows "audit_state b i = audit_state a i \<or> audit_state b i = after_send (audit_state a i) \<or>
         audit_state b i = after_recv (audit_state a i)"
  using apply_call_audit_state [OF assms, of i] by (cases c) (simp_all split: if_splits)

lemma apply_call_keeps_sender:
  assumes "apply_call c a = Inr b" and "audit_state a i \<in> {Some Tx, Some Clash}"
  shows "audit_state b i \<in> {Some Tx, Some Clash}"
  using apply_call_audit_step [OF assms(1), of i] assms(2)
    after_send_sender [of "audit_state a i"] after_recv_sender [of "audit_state a i"]
  by (elim disjE) simp_all

lemma apply_call_keeps_receiver:
  assumes "apply_call c a = Inr b" and "audit_state a i \<in> {Some Rx, Some Clash}"
  shows "audit_state b i \<in> {Some Rx, Some Clash}"
  using apply_call_audit_step [OF assms(1), of i] assms(2)
    after_send_receiver [of "audit_state a i"] after_recv_receiver [of "audit_state a i"]
  by (elim disjE) simp_all

lemma build_keeps_sender:
  "build a cs = Inr a' \<Longrightarrow> audit_state a i \<in> {Some Tx, Some Clash} \<Longrightarrow>
     audit_state a' i \<in> {Some Tx, Some Clash}"
proof (induction cs arbitrary: a)
  case Nil
  then show ?case by simp
next
  case (Cons c cs)
  then obtain b where b: "apply_call c a = Inr b" and r: "build b cs = Inr a'"
    by (auto split: sum.splits)
  show ?case
    by (rule Cons.IH [OF r]) (rule apply_call_keeps_sender [OF b Cons.prems(2)])
qed

lemma build_keeps_receiver:
  "build a cs = Inr a' \<Longrightarrow> audit_state a i \<in> {Some Rx, Some Clash} \<Longrightarrow>
     audit_state a' i \<in> {Some Rx, Some Clash}"
proof (induction cs arbitrary: a)
  case Nil
  then show ?case by simp
next
  case (Cons c cs)
  then obtain b where b: "apply_call c a = Inr b" and r: "build b cs = Inr a'"
    by (auto split: sum.splits)
  show ?case
    by (rule Cons.IH [OF r]) (rule apply_call_keeps_receiver [OF b Cons.prems(2)])
qed

lemma build_send_registered:
  assumes "build a cs = Inr a'" and "SendIf True h tx item fn \<in> set cs"
    and "Tx_is_closed tx h = Inr False"
  shows "audit_state a' (Tx_get_id tx) \<in> {Some Tx, Some Clash}"
  using assms(1,2)
proof (induction cs arbitrary: a)
  case Nil
  then show ?case by simp
next
  case (Cons c cs)
  then obtain b where b: "apply_call c a = Inr b" and r: "build b cs = Inr a'"
    by (auto split: sum.splits)
  show ?case
  proof (cases "c = SendIf True h tx item fn")
    case True
    have "audit_state b (Tx_get_id tx) = after_send (audit_state a (Tx_get_id tx))"
      using apply_call_audit_state [OF b, of "Tx_get_id tx"] True assms(3) by simp
    then have "audit_state b (Tx_get_id tx) \<in> {Some Tx, Some Clash}"
      using after_send_any [of "audit_state a (Tx_get_id tx)"] by simp
    then show ?thesis by (rule build_keeps_sender [OF r])
  next
    case False
    then have "SendIf True h tx item fn \<in> set cs" using Cons.prems(2) by simp
    then show ?thesis by (rule Cons.IH [OF r])
  qed
qed

lemma build_recv_registered:
  assumes "build a cs = Inr a'" and "RecvIf True h rx fn \<in> set cs"
    and "Rx_is_closed rx h = Inr False"
  shows "audit_state a' (Rx_get_id rx) \<in> {Some Rx, Some Clash}"
  using assms(1,2)
proof (induction cs arbitrary: a)
  case Nil
  then show ?case by simp
next
  case (Cons c cs)
  then obtain b where b: "apply_call c a = Inr b" and r: "build b cs = Inr a'"
    by (auto split: sum.splits)
  show ?case
  proof (cases "c = RecvIf True h rx fn")
    case True
    have "audit_state b (Rx_get_id rx) = after_recv (audit_state a (Rx_get_id rx))"
      using apply_call_audit_state [OF b, of "Rx_get_id rx"] True assms(3) by simp
    then have "audit_state b (Rx_get_id rx) \<in> {Some Rx, Some Clash}"
      using after_recv_any [of "audit_state a (Rx_get_id rx)"] by simp
    then show ?thesis by (rule build_keeps_receiver [OF r])
  next
    case False
    then have "RecvIf True h rx fn \<in> set cs" using Cons.prems(2) by simp
    then show ?thesis by (rule Cons.IH [OF r])
  qed
qed

lemma enter_set_excludes_clash:
  "audit_state a i = Some Clash \<Longrightarrow> c \<in> set (enter_set a) \<Longrightarrow> choice_id c \<noteq> i"
  by (auto simp: enter_set_def audit_state_def split: option.splits)

lemma audit_consistent_new: "audit_consistent Alt_new"
  by (simp add: audit_consistent_def Alt_new_def only_sends_def only_recvs_def)

lemma audit_consistentD:
  "audit_consistent a \<Longrightarrow>
     (audit_state a i = None \<longrightarrow> only_sends a i \<and> only_recvs a i) \<and>
     (audit_state a i = Some Tx \<longrightarrow> only_sends a i) \<and>
     (audit_state a i = Some Rx \<longrightarrow> only_recvs a i) \<and>
     (only_sends a i \<or> only_recvs a i)"
  unfolding audit_consistent_def by blast

lemma send_impl_consistent:
  assumes "send_impl h tx item fn a = Inr b" and "audit_consistent a"
  shows "audit_consistent b"
proof -
  have old: "audit_state a (Tx_get_id tx) = None \<longrightarrow> only_sends a (Tx_get_id tx)"
    "audit_state a (Tx_get_id tx) = Some Tx \<longrightarrow> only_sends a (Tx_get_id tx)"
    using audit_consistentD [OF assms(2), of "Tx_get_id tx"] by simp_all
  from send_impl_cases [OF assms(1)] show ?thesis
  proof (elim disjE exE conjE)
    assume "b = a" then show ?thesis using assms(2) by simp
  next
    assume *: "ch_audit a (Tx_get_id tx) = None"
      "b = a\<lparr>ch_audit := (ch_audit a)(Tx_get_id tx \<mapsto> \<lparr>state = Tx, vec = [length (choices a)]\<rparr>),
         choices := choices a @ [ChoiceSend tx item fn]\<rparr>"
    show ?thesis
      unfolding audit_consistent_def
    proof (intro allI)
      fix i
      show "(audit_state b i = None \<longrightarrow> only_sends b i \<and> only_recvs b i) \<and>
          (audit_state b i = Some Tx \<longrightarrow> only_sends b i) \<and>
          (audit_state b i = Some Rx \<longrightarrow> only_recvs b i) \<and>
          (only_sends b i \<or> only_recvs b i)"
        using audit_consistentD [OF assms(2), of i] old *
        by (cases "i = Tx_get_id tx") (auto simp: audit_state_def only_sends_def only_recvs_def)
    qed
  next
    fix au
    assume *: "ch_audit a (Tx_get_id tx) = Some au" "state au = Tx"
      "b = a\<lparr>ch_audit := (ch_audit a)(Tx_get_id tx \<mapsto> au\<lparr>vec := vec au @ [length (choices a)]\<rparr>),
         choices := choices a @ [ChoiceSend tx item fn]\<rparr>"
    show ?thesis
      unfolding audit_consistent_def
    proof (intro allI)
      fix i
      show "(audit_state b i = None \<longrightarrow> only_sends b i \<and> only_recvs b i) \<and>
          (audit_state b i = Some Tx \<longrightarrow> only_sends b i) \<and>
          (audit_state b i = Some Rx \<longrightarrow> only_recvs b i) \<and>
          (only_sends b i \<or> only_recvs b i)"
        using audit_consistentD [OF assms(2), of i] old *
        by (cases "i = Tx_get_id tx") (auto simp: audit_state_def only_sends_def only_recvs_def)
    qed
  next
    fix au
    assume *: "ch_audit a (Tx_get_id tx) = Some au" "state au \<noteq> Tx"
      "b = a\<lparr>ch_audit := (ch_audit a)(Tx_get_id tx \<mapsto> au\<lparr>state := Clash\<rparr>)\<rparr>"
    show ?thesis
      unfolding audit_consistent_def
    proof (intro allI)
      fix i
      show "(audit_state b i = None \<longrightarrow> only_sends b i \<and> only_recvs b i) \<and>
          (audit_state b i = Some Tx \<longrightarrow> only_sends b i) \<and>
          (audit_state b i = Some Rx \<longrightarrow> only_recvs b i) \<and>
          (only_sends b i \<or> only_recvs b i)"
        using audit_consistentD [OF assms(2), of i] *
        by (cases "i = Tx_get_id tx") (auto simp: audit_state_def only_sends_def only_recvs_def)
    qed
  qed
qed

lemma recv_impl_consistent:
  assumes "recv_impl h rx fn a = Inr b" and "audit_consistent a"
  shows "audit_consistent b"
proof -
  have old: "audit_state a (Rx_get_id rx) = None \<longrightarrow> only_recvs a (Rx_get_id rx)"
    "audit_state a (Rx_get_id rx) = Some Rx \<longrightarrow> only_recvs a (Rx_get_id rx)"
    using audit_consistentD [OF assms(2), of "Rx_get_id rx"] by simp_all
  from recv_impl_cases [OF assms(1)] show ?thesis
  proof (elim disjE exE conjE)
    assume "b = a" then show ?thesis using assms(2) by simp
  next
    assume *: "ch_audit a (Rx_get_id rx) = None"
      "b = a\<lparr>ch_audit := (ch_audit a)(Rx_get_id rx \<mapsto> \<lparr>state = Rx, vec = [length (choices a)]\<rparr>),
         choices := choices a @ [ChoiceRecv rx fn]\<rparr>"
    show ?thesis
      unfolding audit_consistent_def
    proof (intro allI)
      fix i
      show "(audit_state b i = None \<longrightarrow> only_sends b i \<and> only_recvs b i) \<and>
          (audit_state b i = Some Tx \<longrightarrow> only_sends b i) \<and>
          (audit_state b i = Some Rx \<longrightarrow> only_recvs b i) \<and>
          (only_sends b i \<or> only_recvs b i)"
        using audit_consistentD [OF assms(2), of i] old *
        by (cases "i = Rx_get_id rx") (auto simp: audit_state_def only_sends_def only_recvs_def)
    qed
  next
    fix au
    assume *: "ch_audit a (Rx_get_id rx) = Some au" "state au = Rx"
      "b = a\<lparr>ch_audit := (ch_audit a)(Rx_get_id rx \<mapsto> au\<lparr>vec := vec au @ [length (choices a)]\<rparr>),
         choices := choices a @ [ChoiceRecv rx fn]\<rparr>"
    show ?thesis
      unfolding audit_consistent_def
    proof (intro allI)
      fix i
      show "(audit_state b i = None \<longrightarrow> only_sends b i \<and> only_recvs b i) \<and>
          (audit_state b i = Some Tx \<longrightarrow> only_sends b i) \<and>
          (audit_state b i = Some Rx \<longrightarrow> only_recvs b i) \<and>
          (only_sends b i \<or> only_recvs b i)"
        using audit_consistentD [OF assms(2), of i] old *
        by (cases "i = Rx_get_id rx") (auto simp: audit_state_def only_sends_def only_recvs_def)
    qed
  next
    fix au
    assume *: "ch_audit a (Rx_get_id rx) = Some au" "state au \<noteq> Rx"
      "b = a\<lparr>ch_audit := (ch_audit a)(Rx_get_id rx \<mapsto> au\<lparr>state := Clash\<rparr>)\<rparr>"
    show ?thesis
      unfolding audit_consistent_def
    proof (intro allI)
      fix i
      show "(audit_state b i = None \<longrightarrow> only_sends b i \<and> only_recvs b i) \<and>
          (audit_state b i = Some Tx \<longrightarrow> only_sends b i) \<and>
          (audit_state b i = Some Rx \<longrightarrow> only_recvs b i) \<and>
          (only_sends b i \<or> only_recvs b i)"
        using audit_consistentD [OF assms(2), of i] *
        by (cases "i = Rx_get_id rx") (auto simp: audit_state_def only_sends_def only_recvs_def)
    qed
  qed
qed

lemma timeout_impl_consistent:
  assumes "audit_consistent a"
  shows "audit_consistent (timeout_impl now t fn a)"
proof -
  have 1: "audit_state (timeout_impl now t fn a) = audit_state a"
    by (rule ext) (simp add: audit_state_def timeout_impl_audit)
  have 2: "only_sends (timeout_impl now t fn a) = only_sends a"
    by (rule ext) (simp add: only_sends_def timeout_impl_audit)
  have 3: "only_recvs (timeout_impl now t fn a) = only_recvs a"
    by (rule ext) (simp add: only_recvs_def timeout_impl_audit)
  show ?thesis
    unfolding audit_consistent_def 1 2 3 using assms unfolding audit_consistent_def .
qed

lemma apply_call_consistent:
  "apply_call c a = Inr b \<Longrightarrow> audit_consistent a \<Longrightarrow> audit_consistent b"
  by (cases c)
    (auto split: if_splits
      intro: send_impl_consistent recv_impl_consistent timeout_impl_consistent)

lemma build_consistent:
  "build a cs = Inr a' \<Longrightarrow> audit_consistent a \<Longrightarrow> audit_consistent a'"
proof (induction cs arbitrary: a)
  case Nil
  then show ?case by simp
next
  case (Cons c cs)
  then obtain b where b: "apply_call c a = Inr b" and r: "build b cs = Inr a'"
    by (auto split: sum.splits)
  show ?case
    by (rule Cons.IH [OF r]) (rule apply_call_consistent [OF b Cons.prems(2)])
qed

lemma conflicting_recv_not_appended:
  assumes "audit_state b (Rx_get_id rx) = Some Tx" and "Rx_is_closed rx h = Inr False"
  shows "\<exists>b'. recv_impl h rx fn b = Inr b' \<and> audit_state b' (Rx_get_id rx) = Some Clash \<and>
           choices b' = choices b"
  using assms by (auto simp: recv_impl_def audit_state_def Let_def)

lemma conflicting_send_not_appended:
  assumes "audit_state b (Tx_get_id tx) = Some Rx" and "Tx_is_closed tx h = Inr False"
  shows "\<exists>b'. send_impl h tx item fn b = Inr b' \<and> audit_state b' (Tx_get_id tx) = Some Clash \<and>
           choices b' = choices b"
  using assms by (auto simp: send_impl_def audit_state_def Let_def)

lemma same_direction_send_appended:
  assumes "ch_audit b (Tx_get_id tx) = Some au" and "state au = Tx"
    and "Tx_is_closed tx h = Inr False"
  shows "send_impl h tx item fn b =
     Inr (b\<lparr>ch_audit := (ch_audit b)(Tx_get_id tx \<mapsto> au\<lparr>vec := vec au @ [length (choices b)]\<rparr>),
            choices := choices b @ [ChoiceSend tx item fn]\<rparr>)"
  using assms by (simp add: send_impl_def Let_def)

lemma same_direction_recv_appended:
  assumes "ch_audit b (Rx_get_id rx) = Some au" and "state au = Rx"
    and "Rx_is_closed rx h = Inr False"
  shows "recv_impl h rx fn b =
     Inr (b\<lparr>ch_audit := (ch_audit b)(Rx_get_id rx \<mapsto> au\<lparr>vec := vec au @ [length (choices b)]\<rparr>),
            choices := choices b @ [ChoiceRecv rx fn]\<rparr>)"
  using assms by (simp add: recv_impl_def Let_def)

lemma clash_send_not_appended:
  assumes "ch_audit b (Tx_get_id tx) = Some au" and "state au = Clash"
    and "Tx_is_closed tx h = Inr False"
  shows "\<exists>b'. send_impl h tx item fn b = Inr b' \<and> choices b' = choices b \<and>
           ch_audit b' (Tx_get_id tx) = Some au"
  using assms by (simp add: send_impl_def Let_def)

lemma clash_recv_not_appended:
  assumes "ch_audit b (Rx_get_id rx) = Some au" and "state au = Clash"
    and "Rx_is_closed rx h = Inr False"
  shows "\<exists>b'. recv_impl h rx fn b = Inr b' \<and> choices b' = choices b \<and>
           ch_audit b' (Rx_get_id rx) = Some au"
  using assms by (simp add: recv_impl_def Let_def)

text \<open>
  C3, as amended. When a chain of builder calls on a fresh Alt holds a send and a receive, both on
  open handles of one channel, the audit entry of that channel-id ends as Clash, none of
  the choices that select enters refers to it, and the choices kept on it all have one
  direction. At any Alt: a receive that meets an entry in state Tx (a send that meets
  one in state Rx) marks it Clash and appends no choice; a send that meets state Tx
  (a receive that meets state Rx) appends its choice to \<open>choices_\<close> and its pointer
  to the entry's \<open>vec_\<close>, the state unchanged; a send or a receive that meets an
  entry already in state Clash appends nothing and leaves the entry as it is. So a
  further choice of the first direction is appended only as long as no choice of the
  other direction has been registered on the channel.
\<close>

theorem send_recv_same_channel_clash:
  fixes a :: "('i, 'f) Alt"
  assumes built: "build Alt_new calls = Inr a"
    and snd_call: "SendIf True h1 tx item fn1 \<in> set calls"
    and snd_open: "Tx_is_closed tx h1 = Inr False"
    and rcv_call: "RecvIf True h2 rx fn2 \<in> set calls"
    and rcv_open: "Rx_is_closed rx h2 = Inr False"
    and same: "Rx_get_id rx = Tx_get_id tx"
  shows "audit_state a (Tx_get_id tx) = Some Clash \<and>
     (\<forall>c\<in>set (enter_set a). choice_id c \<noteq> Tx_get_id tx) \<and>
     (only_sends a (Tx_get_id tx) \<or> only_recvs a (Tx_get_id tx)) \<and>
     (\<forall>b :: ('i, 'f) Alt. audit_state b (Tx_get_id tx) = Some Tx \<longrightarrow>
        (\<exists>b'. recv_impl h2 rx fn2 b = Inr b' \<and> audit_state b' (Tx_get_id tx) = Some Clash \<and>
           choices b' = choices b)) \<and>
     (\<forall>b. audit_state b (Tx_get_id tx) = Some Rx \<longrightarrow>
        (\<exists>b'. send_impl h1 tx item fn1 b = Inr b' \<and> audit_state b' (Tx_get_id tx) = Some Clash \<and>
           choices b' = choices b)) \<and>
     (\<forall>b au. ch_audit b (Tx_get_id tx) = Some au \<and> state au = Tx \<longrightarrow>
        send_impl h1 tx item fn1 b =
          Inr (b\<lparr>ch_audit := (ch_audit b)(Tx_get_id tx \<mapsto> au\<lparr>vec := vec au @ [length (choices b)]\<rparr>),
                 choices := choices b @ [ChoiceSend tx item fn1]\<rparr>)) \<and>
     (\<forall>(b :: ('i, 'f) Alt) au. ch_audit b (Tx_get_id tx) = Some au \<and> state au = Rx \<longrightarrow>
        recv_impl h2 rx fn2 b =
          Inr (b\<lparr>ch_audit := (ch_audit b)(Tx_get_id tx \<mapsto> au\<lparr>vec := vec au @ [length (choices b)]\<rparr>),
                 choices := choices b @ [ChoiceRecv rx fn2]\<rparr>)) \<and>
     (\<forall>(b :: ('i, 'f) Alt) au. ch_audit b (Tx_get_id tx) = Some au \<and> state au = Clash \<longrightarrow>
        (\<exists>b'. send_impl h1 tx item fn1 b = Inr b' \<and> choices b' = choices b \<and>
           ch_audit b' (Tx_get_id tx) = Some au)) \<and>
     (\<forall>(b :: ('i, 'f) Alt) au. ch_audit b (Tx_get_id tx) = Some au \<and> state au = Clash \<longrightarrow>
        (\<exists>b'. recv_impl h2 rx fn2 b = Inr b' \<and> choices b' = choices b \<and>
           ch_audit b' (Tx_get_id tx) = Some au))"
proof -
  have s: "audit_state a (Tx_get_id tx) \<in> {Some Tx, Some Clash}"
    by (rule build_send_registered [OF built snd_call snd_open])
  have r: "audit_state a (Tx_get_id tx) \<in> {Some Rx, Some Clash}"
    using build_recv_registered [OF built rcv_call rcv_open] same by simp
  have clash: "audit_state a (Tx_get_id tx) = Some Clash"
    using s r by auto
  have excl: "\<forall>c\<in>set (enter_set a). choice_id c \<noteq> Tx_get_id tx"
    using enter_set_excludes_clash [OF clash] by blast
  have one: "only_sends a (Tx_get_id tx) \<or> only_recvs a (Tx_get_id tx)"
    using audit_consistentD [OF build_consistent [OF built audit_consistent_new]] by blast
  have c1: "\<forall>b :: ('i, 'f) Alt. audit_state b (Tx_get_id tx) = Some Tx \<longrightarrow>
        (\<exists>b'. recv_impl h2 rx fn2 b = Inr b' \<and> audit_state b' (Tx_get_id tx) = Some Clash \<and>
           choices b' = choices b)"
  proof (intro allI impI)
    fix b :: "('i, 'f) Alt"
    assume "audit_state b (Tx_get_id tx) = Some Tx"
    then have "audit_state b (Rx_get_id rx) = Some Tx"
      by (simp only: same)
    from conflicting_recv_not_appended [OF this rcv_open, of fn2]
    show "\<exists>b'. recv_impl h2 rx fn2 b = Inr b' \<and> audit_state b' (Tx_get_id tx) = Some Clash \<and>
           choices b' = choices b"
      by (simp only: same)
  qed
  have c2: "\<forall>b. audit_state b (Tx_get_id tx) = Some Rx \<longrightarrow>
        (\<exists>b'. send_impl h1 tx item fn1 b = Inr b' \<and> audit_state b' (Tx_get_id tx) = Some Clash \<and>
           choices b' = choices b)"
  proof (intro allI impI)
    fix b :: "('i, 'f) Alt"
    assume "audit_state b (Tx_get_id tx) = Some Rx"
    then show "\<exists>b'. send_impl h1 tx item fn1 b = Inr b' \<and>
        audit_state b' (Tx_get_id tx) = Some Clash \<and> choices b' = choices b"
      by (rule conflicting_send_not_appended [OF _ snd_open])
  qed
  have a1: "\<forall>b au. ch_audit b (Tx_get_id tx) = Some au \<and> state au = Tx \<longrightarrow>
        send_impl h1 tx item fn1 b =
          Inr (b\<lparr>ch_audit := (ch_audit b)(Tx_get_id tx \<mapsto> au\<lparr>vec := vec au @ [length (choices b)]\<rparr>),
                 choices := choices b @ [ChoiceSend tx item fn1]\<rparr>)"
  proof (intro allI impI, elim conjE)
    fix b :: "('i, 'f) Alt" and au
    assume "ch_audit b (Tx_get_id tx) = Some au" and "state au = Tx"
    then show "send_impl h1 tx item fn1 b =
          Inr (b\<lparr>ch_audit := (ch_audit b)(Tx_get_id tx \<mapsto> au\<lparr>vec := vec au @ [length (choices b)]\<rparr>),
                 choices := choices b @ [ChoiceSend tx item fn1]\<rparr>)"
      by (rule same_direction_send_appended [OF _ _ snd_open])
  qed
  have a2: "\<forall>(b :: ('i, 'f) Alt) au. ch_audit b (Tx_get_id tx) = Some au \<and> state au = Rx \<longrightarrow>
        recv_impl h2 rx fn2 b =
          Inr (b\<lparr>ch_audit := (ch_audit b)(Tx_get_id tx \<mapsto> au\<lparr>vec := vec au @ [length (choices b)]\<rparr>),
                 choices := choices b @ [ChoiceRecv rx fn2]\<rparr>)"
  proof (intro allI impI, elim conjE)
    fix b :: "('i, 'f) Alt" and au
    assume "ch_audit b (Tx_get_id tx) = Some au" and "state au = Rx"
    then have "ch_audit b (Rx_get_id rx) = Some au" and "state au = Rx"
      by (simp_all only: same)
    from same_direction_recv_appended [OF this rcv_open, of fn2]
    show "recv_impl h2 rx fn2 b =
          Inr (b\<lparr>ch_audit := (ch_audit b)(Tx_get_id tx \<mapsto> au\<lparr>vec := vec au @ [length (choices b)]\<rparr>),
                 choices := choices b @ [ChoiceRecv rx fn2]\<rparr>)"
      by (simp only: same)
  qed
  have k1: "\<forall>(b :: ('i, 'f) Alt) au. ch_audit b (Tx_get_id tx) = Some au \<and> state au = Clash \<longrightarrow>
        (\<exists>b'. send_impl h1 tx item fn1 b = Inr b' \<and> choices b' = choices b \<and>
           ch_audit b' (Tx_get_id tx) = Some au)"
  proof (intro allI impI, elim conjE)
    fix b :: "('i, 'f) Alt" and au
    assume "ch_audit b (Tx_get_id tx) = Some au" and "state au = Clash"
    then show "\<exists>b'. send_impl h1 tx item fn1 b = Inr b' \<and> choices b' = choices b \<and>
           ch_audit b' (Tx_get_id tx) = Some au"
      by (rule clash_send_not_appended [OF _ _ snd_open])
  qed
  have k2: "\<forall>(b :: ('i, 'f) Alt) au. ch_audit b (Tx_get_id tx) = Some au \<and> state au = Clash \<longrightarrow>
        (\<exists>b'. recv_impl h2 rx fn2 b = Inr b' \<and> choices b' = choices b \<and>
           ch_audit b' (Tx_get_id tx) = Some au)"
  proof (intro allI impI, elim conjE)
    fix b :: "('i, 'f) Alt" and au
    assume "ch_audit b (Tx_get_id tx) = Some au" and "state au = Clash"
    then have "ch_audit b (Rx_get_id rx) = Some au" and "state au = Clash"
      by (simp_all only: same)
    from clash_recv_not_appended [OF this rcv_open, of fn2]
    show "\<exists>b'. recv_impl h2 rx fn2 b = Inr b' \<and> choices b' = choices b \<and>
           ch_audit b' (Tx_get_id tx) = Some au"
      by (simp only: same)
  qed
  show ?thesis
    using clash excl one c1 c2 a1 a2 k1 k2 by (intro conjI)
qed

text \<open>
  Two sends and a receive on the channel at address 7: the second send joins the entry,
  the receive marks it Clash and is not kept.
\<close>

theorem send_recv_same_channel_clash_witness:
  "build (Alt_new :: (nat, nat) Alt)
     [SendIf True (snd (create 7 Map.empty)) (fst (fst (create 7 Map.empty))) 5 None,
      SendIf True (snd (create 7 Map.empty)) (fst (fst (create 7 Map.empty))) 6 None,
      RecvIf True (snd (create 7 Map.empty)) (snd (fst (create 7 Map.empty))) None]
   = Inr \<lparr>choices = [ChoiceSend \<lparr>chan = Some 7\<rparr> 5 None, ChoiceSend \<lparr>chan = Some 7\<rparr> 6 None],
          alt_time_point = TimePointT_max, timer_fn = None, has_skip = False, skip_fn = None,
          ch_audit = [Some 7 \<mapsto> \<lparr>state = Clash, vec = [0, 1]\<rparr>]\<rparr> \<and>
   audit_state \<lparr>choices = [ChoiceSend \<lparr>chan = Some 7\<rparr> (5::nat) (None :: nat option),
                            ChoiceSend \<lparr>chan = Some 7\<rparr> 6 None],
          alt_time_point = TimePointT_max, timer_fn = None, has_skip = False, skip_fn = None,
          ch_audit = [Some 7 \<mapsto> \<lparr>state = Clash, vec = [0, 1]\<rparr>]\<rparr>
     (Tx_get_id (fst (fst (create 7 Map.empty)))) = Some Clash"
proof -
  let ?h = "snd (create 7 Map.empty)"
  let ?tx = "fst (fst (create 7 Map.empty))"
  let ?rx = "snd (fst (create 7 Map.empty))"
  let ?calls = "[SendIf True ?h ?tx 5 None, SendIf True ?h ?tx 6 None,
      RecvIf True ?h ?rx None] :: (nat, nat) builder_call list"
  let ?a = "\<lparr>choices = [ChoiceSend \<lparr>chan = Some 7\<rparr> (5::nat) (None :: nat option),
                            ChoiceSend \<lparr>chan = Some 7\<rparr> 6 None],
          alt_time_point = TimePointT_max, timer_fn = None, has_skip = False, skip_fn = None,
          ch_audit = [Some 7 \<mapsto> \<lparr>state = Clash, vec = [0, 1]\<rparr>]\<rparr>"
  have built: "build Alt_new ?calls = Inr ?a"
    by (simp add: Alt_new_def send_impl_def recv_impl_def create_def Tx_is_closed_def
        Rx_is_closed_def ChannelImpl_is_closed_def Tx_get_id_def Rx_get_id_def Let_def)
  have o1: "Tx_is_closed ?tx ?h = Inr False"
    by (simp add: create_def Tx_is_closed_def ChannelImpl_is_closed_def)
  have o2: "Rx_is_closed ?rx ?h = Inr False"
    by (simp add: create_def Rx_is_closed_def ChannelImpl_is_closed_def)
  have same: "Rx_get_id ?rx = Tx_get_id ?tx"
    by (simp add: create_def Tx_get_id_def Rx_get_id_def)
  have m1: "SendIf True ?h ?tx 5 None \<in> set ?calls"
    by (rule list.set_intros(1))
  have m2: "RecvIf True ?h ?rx None \<in> set ?calls"
    by simp
  have "audit_state ?a (Tx_get_id ?tx) = Some Clash"
    using send_recv_same_channel_clash [OF built m1 o1 m2 o2 same] by (rule conjunct1)
  with built show ?thesis
    by (rule conjI)
qed

text \<open>
  C3 as stated has every further choice of the first direction appended under the
  existing entry. A send, a receive and a second send on the channel at address 7: the
  receive marks the entry Clash, and the second send, although it has the direction of
  the first choice, is not appended: the Alt keeps the one choice, and the entry's
  \<open>vec_\<close> the one pointer.
\<close>

theorem same_direction_after_clash_counterexample:
  "build (Alt_new :: (nat, nat) Alt)
     [SendIf True (snd (create 7 Map.empty)) (fst (fst (create 7 Map.empty))) 5 None,
      RecvIf True (snd (create 7 Map.empty)) (snd (fst (create 7 Map.empty))) None,
      SendIf True (snd (create 7 Map.empty)) (fst (fst (create 7 Map.empty))) 6 None]
   = Inr \<lparr>choices = [ChoiceSend \<lparr>chan = Some 7\<rparr> 5 None],
          alt_time_point = TimePointT_max, timer_fn = None, has_skip = False, skip_fn = None,
          ch_audit = [Some 7 \<mapsto> \<lparr>state = Clash, vec = [0]\<rparr>]\<rparr>"
  by (simp add: Alt_new_def send_impl_def recv_impl_def create_def Tx_is_closed_def
        Rx_is_closed_def ChannelImpl_is_closed_def Tx_get_id_def Rx_get_id_def Let_def)


section \<open>Properties of the Alt builder: timeouts\<close>

lemma timeout_impl_pair:
  "alt_time_point (timeout_impl now t fn a) =
     (if Timer_get (Timer_reset now t) < alt_time_point a
      then Timer_get (Timer_reset now t) else alt_time_point a)"
  "timer_fn (timeout_impl now t fn a) =
     (if Timer_get (Timer_reset now t) < alt_time_point a then fn else timer_fn a)"
  by (simp_all add: timeout_impl_def Let_def)

lemma send_impl_tp:
  "send_impl h tx item fn a = Inr a' \<Longrightarrow>
     alt_time_point a' = alt_time_point a \<and> timer_fn a' = timer_fn a"
  by (auto simp: send_impl_def Let_def split: sum.splits if_splits option.splits)

lemma recv_impl_tp:
  "recv_impl h rx fn a = Inr a' \<Longrightarrow>
     alt_time_point a' = alt_time_point a \<and> timer_fn a' = timer_fn a"
  by (auto simp: recv_impl_def Let_def split: sum.splits if_splits option.splits)

lemma apply_call_pair:
  "apply_call c a = Inr b \<Longrightarrow>
     (alt_time_point b, timer_fn b) =
       fold (\<lambda>p s. if fst p < fst s then p else s) (timeout_calls [c])
         (alt_time_point a, timer_fn a)"
  by (cases c) (auto simp: timeout_impl_pair split: if_splits dest: send_impl_tp recv_impl_tp)

lemma timeout_calls_Cons: "timeout_calls (c # cs) = timeout_calls [c] @ timeout_calls cs"
  by (cases c) simp_all

lemma build_pair:
  "build a calls = Inr a' \<Longrightarrow>
     (alt_time_point a', timer_fn a') =
       fold (\<lambda>p s. if fst p < fst s then p else s) (timeout_calls calls)
         (alt_time_point a, timer_fn a)"
proof (induction calls arbitrary: a)
  case Nil
  then show ?case by simp
next
  case (Cons c cs)
  then obtain b where b: "apply_call c a = Inr b" and r: "build b cs = Inr a'"
    by (auto split: sum.splits)
  show ?case
    using Cons.IH [OF r] apply_call_pair [OF b]
    by (subst timeout_calls_Cons) simp
qed

lemma fold_earliest_fst:
  "fst (fold (\<lambda>p s. if fst p < fst s then p else s) ps (d, f)) = fold min (map fst ps) (d :: int)"
proof (induction ps arbitrary: d f)
  case Nil
  then show ?case by simp
next
  case (Cons p ps)
  show ?case
  proof (cases "fst p < d")
    case True
    then show ?thesis using Cons.IH [of "fst p" "snd p"] by (simp add: min_def)
  next
    case False
    then show ?thesis using Cons.IH [of d f] by (simp add: min_def)
  qed
qed

lemma fold_earliest_first:
  assumes "fold (\<lambda>p s. if fst p < fst s then p else s) ps (d, f) = (m, g)"
  shows "(m < d \<longrightarrow> find (\<lambda>p. fst p = m) ps = Some (m, g)) \<and>
         (\<not> m < d \<longrightarrow> m = (d :: int) \<and> g = f)"
  using assms
proof (induction ps arbitrary: d f)
  case Nil
  then show ?case by simp
next
  case (Cons p ps)
  show ?case
  proof (cases "fst p < d")
    case True
    then have "fold (\<lambda>p s. if fst p < fst s then p else s) ps (fst p, snd p) = (m, g)"
      using Cons.prems by simp
    from Cons.IH [OF this] True show ?thesis
      by (cases "m < fst p") (auto simp: prod_eq_iff)
  next
    case False
    then have "fold (\<lambda>p s. if fst p < fst s then p else s) ps (d, f) = (m, g)"
      using Cons.prems by simp
    from Cons.IH [OF this] False show ?thesis
      by auto
  qed
qed

lemma build_deadline:
  assumes "build a calls = Inr a'"
  shows "alt_time_point a' = Min (set (alt_time_point a # map fst (timeout_calls calls)))"
proof -
  have "alt_time_point a' = fold min (map fst (timeout_calls calls)) (alt_time_point a)"
    using build_pair [OF assms] fold_earliest_fst [of "timeout_calls calls" "alt_time_point a" "timer_fn a"]
    by (metis fst_conv)
  then show ?thesis
    by (simp only: Min.set_eq_fold)
qed

lemma build_closure:
  assumes "build a calls = Inr a'"
  shows "(alt_time_point a' < alt_time_point a \<longrightarrow>
            find (\<lambda>p. fst p = alt_time_point a') (timeout_calls calls)
              = Some (alt_time_point a', timer_fn a')) \<and>
         (\<not> alt_time_point a' < alt_time_point a \<longrightarrow>
            alt_time_point a' = alt_time_point a \<and> timer_fn a' = timer_fn a)"
  by (rule fold_earliest_first) (rule build_pair [OF assms, symmetric])

lemma find_list_ex: "find P xs = Some x \<Longrightarrow> P x \<Longrightarrow> Q x \<Longrightarrow> list_ex (\<lambda>y. P y \<and> Q y) xs"
  by (induction xs) (auto split: if_splits)

text \<open>
  C7, as amended. After any chain of builder calls on a fresh Alt the deadline is the
  least of \<open>TimePointT::max()\<close> and the time points of the registered timers, each as
  reset at its call; it depends on the set of these time points only, not on their
  order. When the deadline is before \<open>TimePointT::max()\<close>, the stored closure is that
  of the first registered timer with that time point. When it is not, the deadline is
  \<open>TimePointT::max()\<close> and the stored closure is the empty one.
\<close>

theorem deadline_is_earliest_timeout:
  fixes a :: "('i, 'f) Alt"
  assumes "build Alt_new calls = Inr a"
  shows "alt_time_point a = Min (set (TimePointT_max # map fst (timeout_calls calls))) \<and>
     (\<forall>calls' (a' :: ('i, 'f) Alt). build Alt_new calls' = Inr a' \<and>
        set (map fst (timeout_calls calls')) = set (map fst (timeout_calls calls)) \<longrightarrow>
        alt_time_point a' = alt_time_point a) \<and>
     (alt_time_point a < TimePointT_max \<longrightarrow>
        find (\<lambda>p. fst p = alt_time_point a) (timeout_calls calls)
          = Some (alt_time_point a, timer_fn a) \<and>
        closure_of_minimal_timer calls a) \<and>
     (\<not> alt_time_point a < TimePointT_max \<longrightarrow>
        alt_time_point a = TimePointT_max \<and> timer_fn a = None)"
proof -
  have new: "alt_time_point (Alt_new :: ('i, 'f) Alt) = TimePointT_max"
    "timer_fn (Alt_new :: ('i, 'f) Alt) = None"
    by (simp_all add: Alt_new_def)
  have d: "alt_time_point a = Min (set (TimePointT_max # map fst (timeout_calls calls)))"
    using build_deadline [OF assms] by (simp only: new)
  have o: "\<forall>calls' (a' :: ('i, 'f) Alt). build Alt_new calls' = Inr a' \<and>
        set (map fst (timeout_calls calls')) = set (map fst (timeout_calls calls)) \<longrightarrow>
        alt_time_point a' = alt_time_point a"
  proof (intro allI impI, elim conjE)
    fix calls' and a' :: "('i, 'f) Alt"
    assume b: "build Alt_new calls' = Inr a'"
      and s: "set (map fst (timeout_calls calls')) = set (map fst (timeout_calls calls))"
    have "alt_time_point a' = Min (set (TimePointT_max # map fst (timeout_calls calls')))"
      using build_deadline [OF b] by (simp only: new)
    then show "alt_time_point a' = alt_time_point a"
      using d s by simp
  qed
  have c: "(alt_time_point a < TimePointT_max \<longrightarrow>
            find (\<lambda>p. fst p = alt_time_point a) (timeout_calls calls)
              = Some (alt_time_point a, timer_fn a)) \<and>
         (\<not> alt_time_point a < TimePointT_max \<longrightarrow>
            alt_time_point a = TimePointT_max \<and> timer_fn a = None)"
    using build_closure [OF assms] by (simp only: new)
  have e: "alt_time_point a < TimePointT_max \<longrightarrow> closure_of_minimal_timer calls a"
  proof
    assume "alt_time_point a < TimePointT_max"
    then have "find (\<lambda>p. fst p = alt_time_point a) (timeout_calls calls)
              = Some (alt_time_point a, timer_fn a)"
      using c by blast
    from find_list_ex [OF this, of "\<lambda>p. snd p = timer_fn a"]
    show "closure_of_minimal_timer calls a"
      by (simp add: closure_of_minimal_timer_def)
  qed
  show ?thesis
    using d o c e by blast
qed

text \<open>
  Three timers: an Egg of 50 ticks reset at 100, a Date at 120, an Egg of 10 ticks reset
  at 110. The deadline is 120, and of the two timers at 120 the first registered gave
  the closure.
\<close>

theorem deadline_is_earliest_timeout_witness:
  "build (Alt_new :: (nat, nat) Alt)
     [TimeoutIf True 100 (Egg 0 50) (Some 1), TimeoutIf True 100 (Date 120) (Some 2),
      TimeoutIf True 110 (Egg 0 10) (Some 3)]
     = Inr \<lparr>choices = [], alt_time_point = 120, timer_fn = Some 2, has_skip = False,
            skip_fn = None, ch_audit = Map.empty\<rparr> \<and>
   closure_of_minimal_timer
     [TimeoutIf True 100 (Egg 0 50) (Some 1), TimeoutIf True 100 (Date 120) (Some 2),
      TimeoutIf True 110 (Egg 0 10) (Some 3)]
     (\<lparr>choices = [], alt_time_point = 120, timer_fn = Some 2, has_skip = False,
            skip_fn = None, ch_audit = Map.empty\<rparr> :: (nat, nat) Alt)"
proof -
  let ?calls = "[TimeoutIf True 100 (Egg 0 50) (Some 1), TimeoutIf True 100 (Date 120) (Some 2),
      TimeoutIf True 110 (Egg 0 10) (Some 3)] :: (nat, nat) builder_call list"
  let ?a = "\<lparr>choices = [], alt_time_point = 120, timer_fn = Some 2, has_skip = False,
            skip_fn = None, ch_audit = Map.empty\<rparr> :: (nat, nat) Alt"
  have built: "build Alt_new ?calls = Inr ?a"
    by (simp add: Alt_new_def timeout_impl_def TimePointT_max_def)
  have lt: "alt_time_point ?a < TimePointT_max"
    by (simp add: TimePointT_max_def)
  have "alt_time_point ?a < TimePointT_max \<longrightarrow>
        find (\<lambda>p. fst p = alt_time_point ?a) (timeout_calls ?calls)
          = Some (alt_time_point ?a, timer_fn ?a) \<and>
        closure_of_minimal_timer ?calls ?a"
    using deadline_is_earliest_timeout [OF built] by blast
  then have "closure_of_minimal_timer ?calls ?a"
    using lt by blast
  with built show ?thesis
    by (rule conjI)
qed

text \<open>
  C7 as stated fails for a timer whose time point is \<open>TimePointT::max()\<close>: it attains
  the minimum, yet the comparison is strict, so its closure is not stored.
\<close>

theorem closure_of_latest_timer_counterexample:
  "build (Alt_new :: (nat, nat) Alt) [TimeoutIf True 0 (Date TimePointT_max) (Some 1)]
     = Inr \<lparr>choices = [], alt_time_point = TimePointT_max, timer_fn = None, has_skip = False,
            skip_fn = None, ch_audit = Map.empty\<rparr> \<and>
   \<not> closure_of_minimal_timer [TimeoutIf True 0 (Date TimePointT_max) (Some 1)]
     (\<lparr>choices = [], alt_time_point = TimePointT_max, timer_fn = None, has_skip = False,
            skip_fn = None, ch_audit = Map.empty\<rparr> :: (nat, nat) Alt)"
  by (simp add: Alt_new_def timeout_impl_def closure_of_minimal_timer_def)


section \<open>Properties of the fiber entry\<close>

lemma trampoline_never_returns: "trampoline asserts entry_fn vp \<noteq> Returned s"
  by (auto simp: trampoline_def split: option.splits outcome.splits)

text \<open>
  C9. When the entry closure of a fiber returns, the trampoline ends in a fatal
  "unreachable" condition, the failed assertion or the thrown \<open>UnreachableError\<close>,
  which leaves the fiber's function towards the thread that hosts it; in no case does
  the trampoline return.
\<close>

theorem entry_return_is_unreachable:
  assumes "entry_fn = Some f" and "f vp = Returned s"
  shows "(\<exists>e. trampoline asserts entry_fn vp = Raised e \<and> is_unreachable e) \<and>
         (\<forall>s'. trampoline asserts entry_fn vp \<noteq> Returned s')"
proof
  show "\<exists>e. trampoline asserts entry_fn vp = Raised e \<and> is_unreachable e"
    using assms by (cases asserts) (simp_all add: trampoline_def)
  show "\<forall>s'. trampoline asserts entry_fn vp \<noteq> Returned s'"
    by (simp add: trampoline_never_returns)
qed

text \<open>An entry closure that returns at once, with assertions compiled out and in.\<close>

theorem entry_return_is_unreachable_witness:
  "trampoline False (Some (\<lambda>vp :: nat. Returned (vp + 1))) 0
     = (Raised UnreachableError_default :: nat outcome) \<and>
   trampoline True (Some (\<lambda>vp :: nat. Returned (vp + 1))) 0
     = (Raised (AssertionFailed ''unreachable: Context should not return from entry_func_( ).'')
         :: nat outcome)"
proof -
  have r: "(\<lambda>vp :: nat. Returned (vp + 1)) 0 = (Returned 1 :: nat outcome)"
    by simp
  have "\<exists>e. trampoline False (Some (\<lambda>vp :: nat. Returned (vp + 1))) 0
            = (Raised e :: nat outcome) \<and> is_unreachable e"
    using entry_return_is_unreachable
      [of "Some (\<lambda>vp :: nat. Returned (vp + 1))" "\<lambda>vp :: nat. Returned (vp + 1)" 0 1 False,
       OF refl r]
    by (rule conjunct1)
  then show ?thesis
    by (simp add: trampoline_def UnreachableError_default_def)
qed

section \<open>Properties of the work-stealing policy: the victim draw\<close>

lemma take_id_loop_result:
  assumes "take_id_loop draws me k = Some r"
  shows "fst r \<noteq> me \<and> k < snd r \<and> fst r = draws (snd r - 1) \<and>
     (\<forall>j. k \<le> j \<and> j < snd r - 1 \<longrightarrow> draws j = me)"
proof (rule take_id_loop.raw_induct
    [where P = "\<lambda>draws me k r. fst r \<noteq> me \<and> k < snd r \<and> fst r = draws (snd r - 1) \<and>
       (\<forall>j. k \<le> j \<and> j < snd r - 1 \<longrightarrow> draws j = me)", OF _ assms])
  fix f :: "(nat \<Rightarrow> nat) \<Rightarrow> nat \<Rightarrow> nat \<Rightarrow> (nat \<times> nat) option"
    and d m i and y :: "nat \<times> nat"
  assume ih: "\<And>d m i y. f d m i = Some y \<Longrightarrow>
      fst y \<noteq> m \<and> i < snd y \<and> fst y = d (snd y - 1) \<and>
      (\<forall>j. i \<le> j \<and> j < snd y - 1 \<longrightarrow> d j = m)"
    and step: "(if d i = m then f d m (Suc i) else Some (d i, Suc i)) = Some y"
  show "fst y \<noteq> m \<and> i < snd y \<and> fst y = d (snd y - 1) \<and>
      (\<forall>j. i \<le> j \<and> j < snd y - 1 \<longrightarrow> d j = m)"
  proof (cases "d i = m")
    case True
    then have "f d m (Suc i) = Some y"
      using step by simp
    from ih [OF this] have *: "fst y \<noteq> m" "Suc i < snd y" "fst y = d (snd y - 1)"
      "\<forall>j. Suc i \<le> j \<and> j < snd y - 1 \<longrightarrow> d j = m"
      by simp_all
    have "\<forall>j. i \<le> j \<and> j < snd y - 1 \<longrightarrow> d j = m"
    proof (intro allI impI)
      fix j
      assume "i \<le> j \<and> j < snd y - 1"
      then have "j = i \<or> (Suc i \<le> j \<and> j < snd y - 1)"
        by arith
      then show "d j = m"
        using True * by blast
    qed
    with * show ?thesis
      by simp
  next
    case False
    then have "y = (d i, Suc i)"
      using step by simp
    with False show ?thesis
      by simp
  qed
qed

lemma take_id_loop_stuck:
  assumes "\<forall>j. draws j = me"
  shows "take_id_loop draws me k = None"
proof (cases "take_id_loop draws me k")
  case None
  then show ?thesis .
next
  case (Some r)
  from take_id_loop_result [OF this]
  have "fst r \<noteq> me" and "fst r = draws (snd r - 1)"
    by blast+
  with assms show ?thesis
    by metis
qed


lemma distr_max_one: "distr_max (Suc 0) = 0"
  by (simp add: distr_max_def)

text \<open>
  C10. With one worker, as when \<open>hardware_concurrency\<close> reports 0 or 1, every number
  the distribution can yield is the caller's own id: \<open>take_id\<close> does not return, and
  neither does \<open>pick_next\<close> when the own deque and the local ready list are empty.
\<close>

theorem single_worker_steal_never_returns:
  assumes "num_workers w = num_cpus hardware_concurrency"
    and "hardware_concurrency \<le> 1"
    and "s < num_workers w"
    and "\<forall>k. draws k \<le> distr_max (num_workers w)"
  shows "num_workers w = 1 \<and> take_id draws s w = None \<and>
         (deque w s = [] \<and> ready_queue w s = [] \<longrightarrow> pick_next draws s w = None)"
proof -
  have one: "num_workers w = 1"
    using assms(1,2) by (simp add: num_cpus_def)
  have "\<forall>k. draws k = s"
    using assms(3,4) by (simp add: one distr_max_one)
  then have loop: "\<And>k. take_id_loop draws s k = None"
    by (rule take_id_loop_stuck)
  have t: "\<And>w'. take_id draws s w' = None"
    by (simp add: take_id_def loop)
  have "deque w s = [] \<and> ready_queue w s = [] \<longrightarrow> pick_next draws s w = None"
    by (simp add: pick_next_def Let_def deque_pop_def log_call_def t)
  with one t show ?thesis by simp
qed

text \<open>One worker, nothing to run, and the only draws there can be.\<close>

theorem single_worker_steal_never_returns_witness:
  "take_id (\<lambda>k. 0) 0 (init 0 World_empty) = None \<and>
   pick_next (\<lambda>k. 0) 0 (init 0 World_empty) = None"
proof -
  have 1: "num_workers (init 0 World_empty) = num_cpus 0"
    by (simp add: init_def)
  have 2: "(0::nat) \<le> 1"
    by simp
  have 3: "0 < num_workers (init 0 World_empty)"
    by (simp add: init_def num_cpus_def)
  have 4: "\<forall>k. (\<lambda>k. 0 :: nat) k \<le> distr_max (num_workers (init 0 World_empty))"
    by simp
  have e: "deque (init 0 World_empty) 0 = [] \<and> ready_queue (init 0 World_empty) 0 = []"
    by (simp add: init_def World_empty_def)
  from single_worker_steal_never_returns [OF 1 2 3 4] e show ?thesis
    by blast
qed

section \<open>Properties of the work-stealing policy: pick_next\<close>


lemma pick_next_frame:
  assumes "pick_next draws s w = Some (r, w')"
  shows "sleep_queue w' = sleep_queue w"
    and "time_point (ctxs w' d) = time_point (ctxs w d)"
    and "ctx_type (ctxs w' d) = ctx_type (ctxs w d)"
    and "scheduler (ctxs w d) \<noteq> None \<Longrightarrow> scheduler (ctxs w' d) \<noteq> None"
    and "terminated_queue w' = terminated_queue w"
    and "remote_queue w' = remote_queue w"
    and "scheduler (ctxs w d) = Some s \<Longrightarrow> scheduler (ctxs w' d) = Some s"
    and "r = None \<Longrightarrow> deque w' s = [] \<and> ready_queue w' s = []"
  using assms
  by (auto simp: pick_next_def Let_def deque_pop_def deque_steal_def take_id_def log_call_def
      attach_def split: if_splits option.splits prod.splits list.splits)








section \<open>Properties of the timed waits\<close>

lemma sleep_until_past:
  "tp \<le> now \<Longrightarrow> sleep_until draws now tp d s w = Some (Inr (Woke True w))"
  by (simp add: sleep_until_def Let_def)

lemma ChannelImpl_recv_until_past:
  assumes "tp \<le> now" and "h c = Some ch" and "\<not> closed ch" and "sl c = SlotNone"
  shows "ChannelImpl_recv_until partner draws now tp c l s h sl w =
     Some (Inr (Done Timeout, sl, w\<lparr>locked := (locked w)(l := False)\<rparr>))"
proof -
  have "sl(c := SlotNone) = sl"
    using assms(4) by (simp add: fun_upd_idem)
  then show ?thesis
    using assms
    by (simp add: ChannelImpl_recv_until_def wait_until_lock_def sleep_until_past
        ChannelImpl_woken_def Let_def)
qed

lemma ChannelImpl_send_until_past:
  assumes "tp \<le> now" and "h c = Some ch" and "\<not> closed ch" and "sl c = SlotNone"
  shows "ChannelImpl_send_until partner draws now tp c l s h sl w =
     Some (Inr (Done Timeout, sl, w\<lparr>locked := (locked w)(l := False)\<rparr>))"
proof -
  have "sl(c := SlotNone) = sl"
    using assms(4) by (simp add: fun_upd_idem)
  then show ?thesis
    using assms
    by (simp add: ChannelImpl_send_until_def wait_until_lock_def sleep_until_past
        ChannelImpl_woken_def Let_def)
qed

lemma alt_wait_links:
  assumes "alt_tp < TimePointT_max" and "alt_wait draws al alt_ctx alt_tp l s w = Some (Inr st)"
  shows "\<exists>c w'. st = Suspended c w' \<and> alt_ctx \<in> set (sleep_queue w' s) \<and>
     time_point (ctxs w' alt_ctx) = alt_tp"
proof -
  define w1 where "w1 = link_sleep s alt_ctx
                    (w\<lparr>ctxs := (ctxs w)(alt_ctx :=
                          (ctxs w alt_ctx)\<lparr>alt := Some al, time_point := alt_tp\<rparr>)\<rparr>)"
  have in1: "alt_ctx \<in> set (sleep_queue w1 s)" and tp1: "time_point (ctxs w1 alt_ctx) = alt_tp"
    by (simp_all add: w1_def link_sleep_def)
  have run: "(case pick_next draws s w1 of
           None \<Rightarrow> None
         | Some (None, w2) \<Rightarrow> Some (Inl NullDereference)
         | Some (Some c, w2) \<Rightarrow> Some (Inr (Suspended c (resume s c w2)))) = Some (Inr st)"
    using assms by (simp add: alt_wait_def w1_def Let_def)
  then obtain c w2 where p: "pick_next draws s w1 = Some (Some c, w2)"
    and st: "st = Suspended c (resume s c w2)"
    by (auto split: option.splits prod.splits)
  have "sleep_queue (resume s c w2) = sleep_queue w1"
    and "time_point (ctxs (resume s c w2) alt_ctx) = time_point (ctxs w1 alt_ctx)"
    using pick_next_frame(1,2) [OF p] by (simp_all add: resume_def log_call_def)
  then show ?thesis
    using st in1 tp1 by simp
qed


text \<open>
  C5, as amended. A timed wait through \<open>sleep_until\<close> or one of the three overloads of
  \<open>wait_until\<close> whose deadline is not after the clock reading of the call returns at
  once with \<open>true\<close>, the value that tells the caller the deadline has passed, and leaves
  every queue as it was: the calling fiber is not linked into the sleep-set, and no
  other fiber is resumed. A \<open>recv_until\<close>, \<open>recv_for\<close>, \<open>send_until\<close> or \<open>send_for\<close>
  that reaches this wait, on an open channel whose slot holds no partner, then returns
  Timeout, with the slot empty again and nothing in the world changed but the lock of
  the slot, which is free.
  \<open>alt_wait\<close> is different: whenever the deadline of the Alt is before
  \<open>TimePointT::max()\<close>, past or not, a call that gets as far as the switch to another
  fiber has linked the calling fiber into the sleep-set with that deadline.
\<close>

theorem past_deadline_returns_at_once:
  assumes "tp \<le> now"
  shows "sleep_until draws now tp data s w = Some (Inr (Woke True w)) \<and>
         wait_until draws now tp s w = Some (Inr (Woke True w)) \<and>
         wait_until_ctx draws now tp c s w = Some (Inr (Woke True w)) \<and>
         wait_until_lock draws now tp l lock s w = Some (Inr (Woke True w)) \<and>
         (chan e = Some a \<and> h a = Some ch \<and> \<not> closed ch \<and> sl a = SlotNone \<longrightarrow>
            Rx_recv_until partner draws now tp e l s h sl w =
              Some (Inr (Done Timeout, sl, w\<lparr>locked := (locked w)(l := False)\<rparr>)) \<and>
            Tx_send_until partner draws now tp e l s h sl w =
              Some (Inr (Done Timeout, sl, w\<lparr>locked := (locked w)(l := False)\<rparr>)) \<and>
            (now0 + duration = tp \<longrightarrow>
               Rx_recv_for partner draws now0 now duration e l s h sl w =
                 Some (Inr (Done Timeout, sl, w\<lparr>locked := (locked w)(l := False)\<rparr>)) \<and>
               Tx_send_for partner draws now0 now duration e l s h sl w =
                 Some (Inr (Done Timeout, sl, w\<lparr>locked := (locked w)(l := False)\<rparr>)))) \<and>
         (alt_tp < TimePointT_max \<longrightarrow>
            (\<forall>st. alt_wait draws al alt_ctx alt_tp l s w = Some (Inr st) \<longrightarrow>
               (\<exists>n w'. st = Suspended n w' \<and> alt_ctx \<in> set (sleep_queue w' s) \<and>
                  time_point (ctxs w' alt_ctx) = alt_tp)))"
proof -
  have 1: "\<And>d. sleep_until draws now tp d s w = Some (Inr (Woke True w))"
    using assms by (rule sleep_until_past)
  have 2: "wait_until draws now tp s w = Some (Inr (Woke True w))"
    "wait_until_ctx draws now tp c s w = Some (Inr (Woke True w))"
    "wait_until_lock draws now tp l lock s w = Some (Inr (Woke True w))"
    by (simp_all add: 1 wait_until_def wait_until_ctx_def wait_until_lock_def)
  have 3: "chan e = Some a \<and> h a = Some ch \<and> \<not> closed ch \<and> sl a = SlotNone \<longrightarrow>
            Rx_recv_until partner draws now tp e l s h sl w =
              Some (Inr (Done Timeout, sl, w\<lparr>locked := (locked w)(l := False)\<rparr>)) \<and>
            Tx_send_until partner draws now tp e l s h sl w =
              Some (Inr (Done Timeout, sl, w\<lparr>locked := (locked w)(l := False)\<rparr>)) \<and>
            (now0 + duration = tp \<longrightarrow>
               Rx_recv_for partner draws now0 now duration e l s h sl w =
                 Some (Inr (Done Timeout, sl, w\<lparr>locked := (locked w)(l := False)\<rparr>)) \<and>
               Tx_send_for partner draws now0 now duration e l s h sl w =
                 Some (Inr (Done Timeout, sl, w\<lparr>locked := (locked w)(l := False)\<rparr>)))"
    using ChannelImpl_recv_until_past [OF assms, of h a ch sl partner draws l s w]
      ChannelImpl_send_until_past [OF assms, of h a ch sl partner draws l s w]
    by (simp add: Rx_recv_until_def Tx_send_until_def Rx_recv_for_def Tx_send_for_def)
  have 4: "alt_tp < TimePointT_max \<longrightarrow>
            (\<forall>st. alt_wait draws al alt_ctx alt_tp l s w = Some (Inr st) \<longrightarrow>
               (\<exists>n w'. st = Suspended n w' \<and> alt_ctx \<in> set (sleep_queue w' s) \<and>
                  time_point (ctxs w' alt_ctx) = alt_tp))"
    using alt_wait_links by blast
  show ?thesis
    using 1 2 3 4 by (intro conjI)
qed

text \<open>
  Waits until 5 when the clock reads 10: in the example world, and a \<open>recv_until\<close> of
  the main fiber on the fresh channel at address 7, whose slot is empty.
\<close>

theorem past_deadline_returns_at_once_witness:
  "sleep_until (\<lambda>k. 1) 10 5 None 0 World_example = Some (Inr (Woke True World_example)) \<and>
   wait_until_lock (\<lambda>k. 1) 10 5 3 True 0 World_example = Some (Inr (Woke True World_example)) \<and>
   Rx_recv_until (\<lambda>c sl w. (Done Ok, sl, w)) (\<lambda>k. 1) 10 5 (snd (fst (create 7 Map.empty))) 3 0
       (snd (create 7 Map.empty)) (\<lambda>c. SlotNone) World_running =
     Some (Inr (Done Timeout, \<lambda>c. SlotNone,
                World_running\<lparr>locked := (locked World_running)(3 := False)\<rparr>)) \<and>
   sleep_queue (World_running\<lparr>locked := (locked World_running)(3 := False)\<rparr>) 0 = [2, 4, 3]"
proof -
  have past: "(5::int) \<le> 10"
    by simp
  have rx: "chan (snd (fst (create 7 Map.empty))) = Some 7 \<and>
      snd (create 7 Map.empty) 7 = Some \<lparr>closed = False, use_count = 2\<rparr> \<and>
      \<not> closed \<lparr>closed = False, use_count = 2\<rparr> \<and> (\<lambda>c. SlotNone) (7::nat) = SlotNone"
    by (simp add: create_def)
  have q: "sleep_queue (World_running\<lparr>locked := (locked World_running)(3 := False)\<rparr>) 0 = [2, 4, 3]"
    by (simp add: World_running_def World_example_def)
  note t = past_deadline_returns_at_once [OF past, where draws = "\<lambda>k. 1" and s = 0 and l = 3]
  have a: "sleep_until (\<lambda>k. 1) 10 5 None 0 World_example = Some (Inr (Woke True World_example))"
    using t [of None World_example] by (rule conjunct1)
  have b: "wait_until_lock (\<lambda>k. 1) 10 5 3 True 0 World_example = Some (Inr (Woke True World_example))"
    using t [of None World_example _ True] by simp
  have c: "Rx_recv_until (\<lambda>c sl w. (Done Ok, sl, w)) (\<lambda>k. 1) 10 5 (snd (fst (create 7 Map.empty))) 3 0
       (snd (create 7 Map.empty)) (\<lambda>c. SlotNone) World_running =
     Some (Inr (Done Timeout, \<lambda>c. SlotNone,
                World_running\<lparr>locked := (locked World_running)(3 := False)\<rparr>))"
    using t [where e = "snd (fst (create 7 Map.empty))" and a = 7
        and h = "snd (create 7 Map.empty)" and ch = "\<lparr>closed = False, use_count = 2\<rparr>"
        and sl = "\<lambda>c. SlotNone" and w = World_running
        and partner = "\<lambda>c sl w. (Done Ok, sl, w)"] rx
    by blast
  show ?thesis
    using a b c q by (intro conjI)
qed

text \<open>
  C5 as stated covers every timed wait. With the clock at 10 a wait until 6 through
  \<open>sleep_until\<close> returns at once; \<open>alt_wait\<close> for an Alt whose deadline is 6 reads no
  clock: it links the calling fiber 0 into the sleep-set, behind fiber 2, and switches
  to fiber 1.
\<close>

theorem alt_wait_links_counterexample:
  "sleep_until (\<lambda>k. 1) 10 6 None 0 World_running = Some (Inr (Woke True World_running)) \<and>
   map_option (map_sum id (\<lambda>st. case st of
                                    Suspended n w' \<Rightarrow> (Some n, sleep_queue w' 0, time_point (ctxs w' 0))
                                  | Woke b w' \<Rightarrow> (None, sleep_queue w' 0, time_point (ctxs w' 0))))
     (alt_wait (\<lambda>k. 1) 9 0 6 3 0 World_running)
   = Some (Inr (Some 1, [2, 0, 4, 3], 6)) \<and>
   sleep_queue World_running 0 = [2, 4, 3]"
  by (simp add: sleep_until_def alt_wait_def link_sleep_def pick_next_def deque_pop_def
      resume_def log_call_def World_running_def World_example_def World_empty_def
      TimePointT_max_def Let_def)


section \<open>Properties of the sleep wakeup\<close>

text \<open>
  Linking a fiber that is not in the sleep-set keeps the sleep-set in deadline order:
  the invariant holds as long as deadlines change only while a fiber is unlinked.
\<close>

lemma distinct_insert_middle:
  "distinct (xs @ c # ys) = (distinct (xs @ ys) \<and> c \<notin> set (xs @ ys))"
  by auto

lemma link_sleep_ordered:
  assumes ord: "sleep_queue_ordered s w" and new: "c \<notin> set (sleep_queue w s)"
  shows "sleep_queue_ordered s (link_sleep s c w)"
proof -
  define f where "f = (\<lambda>d. time_point (ctxs w d))"
  define q where "q = sleep_queue w s"
  define P where "P = (\<lambda>x. x \<le> f c)"
  have sq: "sorted (map f q)" and dq: "distinct q"
    using ord by (simp_all add: sleep_queue_ordered_def f_def q_def)
  have tw: "map f (takeWhile (P \<circ> f) q) = takeWhile P (map f q)"
    and dw: "map f (dropWhile (P \<circ> f) q) = dropWhile P (map f q)"
    by (simp_all add: takeWhile_map dropWhile_map)
  have low: "\<forall>x\<in>set (takeWhile P (map f q)). x \<le> f c"
    using set_takeWhileD [of _ P "map f q"] by (auto simp: P_def)
  have high: "\<forall>x\<in>set (dropWhile P (map f q)). f c \<le> x"
  proof (cases "dropWhile P (map f q)")
    case Nil
    show ?thesis unfolding Nil by simp
  next
    case (Cons h t)
    have "\<not> P h"
      using hd_dropWhile [of P "map f q"] Cons by simp
    then have h: "f c < h"
      by (simp add: P_def)
    have "sorted (h # t)"
      using sorted_dropWhile [OF sq, of P] Cons by simp
    then have "\<forall>x\<in>set t. h \<le> x"
      by simp
    then show ?thesis
      using h Cons by fastforce
  qed
  have "sorted (takeWhile P (map f q) @ f c # dropWhile P (map f q))"
    using sorted_takeWhile [OF sq, of P] sorted_dropWhile [OF sq, of P] low high
    by (auto simp: sorted_append intro: order_trans)
  then have s': "sorted (map f (takeWhile (P \<circ> f) q @ c # dropWhile (P \<circ> f) q))"
    by (simp add: tw dw)
  have "distinct (takeWhile (P \<circ> f) q @ dropWhile (P \<circ> f) q)"
    using dq by simp
  moreover have "c \<notin> set (takeWhile (P \<circ> f) q @ dropWhile (P \<circ> f) q)"
    using new by (simp add: q_def)
  ultimately have d': "distinct (takeWhile (P \<circ> f) q @ c # dropWhile (P \<circ> f) q)"
    by (simp only: distinct_insert_middle) simp
  have "sleep_queue (link_sleep s c w) s = takeWhile (P \<circ> f) q @ c # dropWhile (P \<circ> f) q"
    by (simp add: link_sleep_def q_def f_def P_def comp_def)
  moreover have "ctxs (link_sleep s c w) = ctxs w"
    by (simp add: link_sleep_def)
  ultimately show ?thesis
    using s' d' by (simp add: sleep_queue_ordered_def f_def)
qed


lemma schedule_local_fields:
  "time_point (ctxs (schedule_local s c w) d) = time_point (ctxs w d)"
  "alt (ctxs (schedule_local s c w) d) = alt (ctxs w d)"
  "d \<noteq> c \<Longrightarrow> scheduler (ctxs (schedule_local s c w) d) = scheduler (ctxs w d)"
  "call_log (schedule_local s c w) = call_log w"
  "sleep_queue (schedule_local s c w) s' = removeAll c (sleep_queue w s')"
  "scheduler_ctx (schedule_local s c w) = scheduler_ctx w"
  by (simp_all add: schedule_local_def enqueue_def detach_def unlink_Work_def
      try_unlink_Sleep_def Let_def)

lemma schedule_remote_fields:
  "ctxs (schedule_remote s' c w) = ctxs w"
  "call_log (schedule_remote s' c w) = call_log w"
  "sleep_queue (schedule_remote s' c w) = sleep_queue w"
  "scheduler_ctx (schedule_remote s' c w) = scheduler_ctx w"
  by (simp_all add: schedule_remote_def notify_def)

lemma schedule_cases:
  assumes "schedule s c w = Inr w'"
  shows "w' = schedule_local s c (log_call (Schedule c) w) \<or>
         (\<exists>s'. w' = schedule_remote s' c (log_call (Schedule c) w))"
  using assms by (auto simp: schedule_def Let_def split: option.splits if_splits)

lemma log_call_fields:
  "ctxs (log_call e w) = ctxs w"
  "sleep_queue (log_call e w) = sleep_queue w"
  "call_log (log_call e w) = call_log w @ [e]"
  "scheduler_ctx (log_call e w) = scheduler_ctx w"
  by (simp_all add: log_call_def)

lemma schedule_fields:
  assumes "schedule s c w = Inr w'"
  shows "time_point (ctxs w' d) = time_point (ctxs w d)"
    and "alt (ctxs w' d) = alt (ctxs w d)"
    and "d \<noteq> c \<Longrightarrow> scheduler (ctxs w' d) = scheduler (ctxs w d)"
    and "call_log w' = call_log w @ [Schedule c]"
    and "c \<notin> set (sleep_queue w s) \<Longrightarrow> sleep_queue w' s = sleep_queue w s"
    and "scheduler_ctx w' = scheduler_ctx w"
  using schedule_cases [OF assms]
  by (auto simp: schedule_local_fields schedule_remote_fields log_call_fields)

lemma schedule_returns:
  "scheduler (ctxs w c) \<noteq> None \<Longrightarrow> \<exists>w'. schedule s c w = Inr w'"
  by (auto simp: schedule_def Let_def log_call_def)

lemma schedule_effect:
  assumes "schedule s c w = Inr w'"
  shows "ctx_type (ctxs w' d) = ctx_type (ctxs w d)"
    and "scheduler (ctxs w' c) =
      (if owned_by w s c \<and> is_type Type_Dynamic (ctxs w c) then None else scheduler (ctxs w c))"
    and "deque w' s = deque w s @
      (if owned_by w s c \<and> is_type Type_Dynamic (ctxs w c) then [c] else [])"
    and "ready_queue w' s = ready_queue w s @
      (if owned_by w s c \<and> \<not> is_type Type_Dynamic (ctxs w c) then [c] else [])"
    and "s' \<noteq> s \<Longrightarrow> remote_queue w' s' = remote_queue w s' @ (if owned_by w s' c then [c] else [])"
    and "s' \<noteq> s \<Longrightarrow> notified w' s' = notified w s' + (if owned_by w s' c then 1 else 0)"
  using assms
  by (auto simp: schedule_def schedule_local_def schedule_remote_def enqueue_def detach_def
      unlink_Work_def try_unlink_Sleep_def notify_def log_call_def deque_push_def mpsc_push_def
      owned_by_def Let_def split: option.splits if_splits)

lemma wakeup_post_stop:
  assumes "sleep_queue_ordered s w"
    and "sleep_queue w s = [] \<or> (\<exists>c rest. sleep_queue w s = c # rest \<and> now < time_point (ctxs w c))"
  shows "wakeup_post try_timeout now s w w"
proof -
  have none: "\<forall>d\<in>set (sleep_queue w s). \<not> expired now w d"
  proof (cases "sleep_queue w s")
    case Nil
    then show ?thesis by simp
  next
    case (Cons c rest)
    then have first: "now < time_point (ctxs w c)"
      using assms(2) by simp
    have "\<forall>d\<in>set rest. time_point (ctxs w c) \<le> time_point (ctxs w d)"
      using assms(1) Cons by (simp add: sleep_queue_ordered_def)
    then have "\<forall>d\<in>set rest. now < time_point (ctxs w d)"
      using first by (meson less_le_trans)
    then show ?thesis
      using first Cons by (simp add: expired_def not_le)
  qed
  then have "filter (\<lambda>c. \<not> expired now w c) (sleep_queue w s) = sleep_queue w s"
    and "filter (\<lambda>c. expired now w c \<and> timeout_won try_timeout w c) (sleep_queue w s) = []"
    by (simp_all add: filter_empty_conv)
  then show ?thesis
    using none by (auto simp: wakeup_post_def woken_fibers_def)
qed

lemma wakeup_post_step:
  assumes ord: "sleep_queue_ordered s w"
    and q: "sleep_queue w s = c # rest"
    and ex: "expired now w c"
    and a: "sleep_queue wn s = rest"
    and b: "\<forall>d. time_point (ctxs wn d) = (if d = c then TimePointT_max else time_point (ctxs w d))"
    and cc: "\<forall>d. alt (ctxs wn d) = alt (ctxs w d)"
    and e: "call_log wn = call_log w @ (if timeout_won try_timeout w c then [Schedule c] else [])"
    and t: "\<forall>d. ctx_type (ctxs wn d) = ctx_type (ctxs w d)"
    and sc: "\<forall>d. scheduler (ctxs wn d) =
        (if d = c \<and> timeout_won try_timeout w c \<and> owned_by w s c \<and>
            is_type Type_Dynamic (ctxs w c)
         then None else scheduler (ctxs w d))"
    and dq: "deque wn s = deque w s @
        (if timeout_won try_timeout w c \<and> owned_by w s c \<and> is_type Type_Dynamic (ctxs w c)
         then [c] else [])"
    and rq: "ready_queue wn s = ready_queue w s @
        (if timeout_won try_timeout w c \<and> owned_by w s c \<and> \<not> is_type Type_Dynamic (ctxs w c)
         then [c] else [])"
    and rm: "\<forall>s'. s' \<noteq> s \<longrightarrow>
        remote_queue wn s' = remote_queue w s' @
          (if timeout_won try_timeout w c \<and> owned_by w s' c then [c] else []) \<and>
        notified wn s' = notified w s' +
          (if timeout_won try_timeout w c \<and> owned_by w s' c then 1 else 0)"
    and post: "wakeup_post try_timeout now s wn w'"
  shows "sleep_queue_ordered s wn \<and> wakeup_post try_timeout now s w w'"
proof -
  have notin: "c \<notin> set rest" and dist: "distinct rest"
    using ord q by (simp_all add: sleep_queue_ordered_def)
  have same: "\<forall>d\<in>set rest. time_point (ctxs wn d) = time_point (ctxs w d)"
    using b notin by auto
  have meq: "map (\<lambda>d. time_point (ctxs wn d)) rest = map (\<lambda>d. time_point (ctxs w d)) rest"
    using same by simp
  have "sorted (map (\<lambda>d. time_point (ctxs w d)) rest)"
    using ord q by (simp add: sleep_queue_ordered_def)
  then have "sorted (map (\<lambda>d. time_point (ctxs wn d)) rest)"
    by (simp only: meq)
  then have ordn: "sleep_queue_ordered s wn"
    using dist unfolding sleep_queue_ordered_def a by simp
  have exs: "\<forall>d\<in>set rest. expired now wn d = expired now w d"
    using same by (simp add: expired_def)
  have won: "\<forall>d. timeout_won try_timeout wn d = timeout_won try_timeout w d"
    using cc by (simp add: timeout_won_def)
  have f1: "filter (\<lambda>d. \<not> expired now wn d) rest = filter (\<lambda>d. \<not> expired now w d) rest"
    using exs by (intro filter_cong) auto
  have f2: "filter (\<lambda>d. expired now wn d \<and> timeout_won try_timeout wn d) rest
      = filter (\<lambda>d. expired now w d \<and> timeout_won try_timeout w d) rest"
    using exs won by (intro filter_cong) auto
  have p1: "sleep_queue w' s = filter (\<lambda>c. \<not> expired now w c) (sleep_queue w s)"
    using post a q ex f1 by (simp add: wakeup_post_def)
  have p2: "\<forall>d. time_point (ctxs w' d) =
         (if d \<in> set (sleep_queue w s) \<and> expired now w d then TimePointT_max
          else time_point (ctxs w d))"
  proof
    fix d
    have "time_point (ctxs w' d) =
        (if d \<in> set rest \<and> expired now wn d then TimePointT_max else time_point (ctxs wn d))"
      using post a by (simp add: wakeup_post_def)
    then show "time_point (ctxs w' d) =
         (if d \<in> set (sleep_queue w s) \<and> expired now w d then TimePointT_max
          else time_point (ctxs w d))"
      using q ex b exs notin by (cases "d = c") auto
  qed
  have p3: "\<forall>d. alt (ctxs w' d) = alt (ctxs w d)"
    using post cc by (simp add: wakeup_post_def)
  have p4: "call_log w' = call_log w @
        map Schedule (filter (\<lambda>c. expired now w c \<and> timeout_won try_timeout w c) (sleep_queue w s))"
    using post a q ex e f2 by (simp add: wakeup_post_def)
  define wk where "wk = woken_fibers try_timeout now s wn"
  have wk: "woken_fibers try_timeout now s w = (if timeout_won try_timeout w c then [c] else []) @ wk"
    using q ex a f2 by (simp add: woken_fibers_def wk_def)
  have sub: "set wk \<subseteq> set rest"
    by (auto simp: woken_fibers_def wk_def a)
  have cnot: "c \<notin> set wk"
    using sub notin by auto
  have own: "owned_by wn s' d = owned_by w s' d" if "d \<in> set wk" for s' d
  proof -
    have "d \<noteq> c" using that cnot by auto
    then show ?thesis using sc by (simp add: owned_by_def)
  qed
  have dyn: "is_type Type_Dynamic (ctxs wn d) = is_type Type_Dynamic (ctxs w d)" for d
    using t by (simp add: is_type_def)
  have g1: "filter (\<lambda>d. owned_by wn s d \<and> is_type Type_Dynamic (ctxs wn d)) wk
      = filter (\<lambda>d. owned_by w s d \<and> is_type Type_Dynamic (ctxs w d)) wk"
    by (rule filter_cong [OF refl]) (simp add: own dyn)
  have g2: "filter (\<lambda>d. owned_by wn s d \<and> \<not> is_type Type_Dynamic (ctxs wn d)) wk
      = filter (\<lambda>d. owned_by w s d \<and> \<not> is_type Type_Dynamic (ctxs w d)) wk"
    by (rule filter_cong [OF refl]) (simp add: own dyn)
  have g3: "filter (owned_by wn s') wk = filter (owned_by w s') wk" for s'
    by (rule filter_cong [OF refl]) (simp add: own)
  have p5: "\<forall>d. ctx_type (ctxs w' d) = ctx_type (ctxs w d)"
    using post t by (simp add: wakeup_post_def)
  have p6: "\<forall>d. scheduler (ctxs w' d) =
         (if d \<in> set (woken_fibers try_timeout now s w) \<and> owned_by w s d \<and>
             is_type Type_Dynamic (ctxs w d)
          then None else scheduler (ctxs w d))"
  proof
    fix d
    have *: "scheduler (ctxs w' d) =
        (if d \<in> set wk \<and> owned_by wn s d \<and> is_type Type_Dynamic (ctxs wn d)
         then None else scheduler (ctxs wn d))"
      using post by (simp add: wakeup_post_def wk_def)
    show "scheduler (ctxs w' d) =
         (if d \<in> set (woken_fibers try_timeout now s w) \<and> owned_by w s d \<and>
             is_type Type_Dynamic (ctxs w d)
          then None else scheduler (ctxs w d))"
    proof (cases "d = c")
      case True
      then show ?thesis
        using * cnot sc wk by simp
    next
      case False
      then have "scheduler (ctxs wn d) = scheduler (ctxs w d)"
        using sc by simp
      moreover have "d \<in> set (woken_fibers try_timeout now s w) = (d \<in> set wk)"
        using False wk by simp
      moreover have "d \<in> set wk \<Longrightarrow> owned_by wn s d = owned_by w s d"
        by (rule own)
      ultimately show ?thesis
        using * dyn by auto
    qed
  qed
  have p7: "deque w' s = deque w s @
        filter (\<lambda>c. owned_by w s c \<and> is_type Type_Dynamic (ctxs w c))
          (woken_fibers try_timeout now s w)"
  proof -
    have "deque w' s = deque wn s @
        filter (\<lambda>d. owned_by wn s d \<and> is_type Type_Dynamic (ctxs wn d)) wk"
      using post by (simp add: wakeup_post_def wk_def)
    then show ?thesis
      using dq by (simp add: g1 wk)
  qed
  have p8: "ready_queue w' s = ready_queue w s @
        filter (\<lambda>c. owned_by w s c \<and> \<not> is_type Type_Dynamic (ctxs w c))
          (woken_fibers try_timeout now s w)"
  proof -
    have "ready_queue w' s = ready_queue wn s @
        filter (\<lambda>d. owned_by wn s d \<and> \<not> is_type Type_Dynamic (ctxs wn d)) wk"
      using post by (simp add: wakeup_post_def wk_def)
    then show ?thesis
      using rq by (simp add: g2 wk)
  qed
  have p9: "\<forall>s'. s' \<noteq> s \<longrightarrow>
         remote_queue w' s' = remote_queue w s' @
           filter (owned_by w s') (woken_fibers try_timeout now s w) \<and>
         notified w' s' = notified w s' +
           length (filter (owned_by w s') (woken_fibers try_timeout now s w))"
  proof (intro allI impI)
    fix s'
    assume ne: "s' \<noteq> s"
    have "remote_queue w' s' = remote_queue wn s' @ filter (owned_by wn s') wk"
      and "notified w' s' = notified wn s' + length (filter (owned_by wn s') wk)"
      using post ne by (simp_all add: wakeup_post_def wk_def)
    then show "remote_queue w' s' = remote_queue w s' @
           filter (owned_by w s') (woken_fibers try_timeout now s w) \<and>
         notified w' s' = notified w s' +
           length (filter (owned_by w s') (woken_fibers try_timeout now s w))"
      using rm ne by (simp add: g3 wk)
  qed
  have "wakeup_post try_timeout now s w w'"
    unfolding wakeup_post_def using p1 p2 p3 p4 p5 p6 p7 p8 p9 by (intro conjI)
  with ordn show ?thesis
    by (rule conjI)
qed

lemma wakeup_sleep_loop_Nil:
  "sleep_queue w s = [] \<Longrightarrow> wakeup_sleep_loop try_timeout now s w = Inr w"
  by (subst wakeup_sleep_loop.simps) simp

lemma wakeup_sleep_loop_future:
  "sleep_queue w s = c # rest \<Longrightarrow> now < time_point (ctxs w c) \<Longrightarrow>
     wakeup_sleep_loop try_timeout now s w = Inr w"
  by (subst wakeup_sleep_loop.simps) simp

lemma wakeup_sleep_loop_expired:
  assumes "sleep_queue w s = c # rest" and "\<not> now < time_point (ctxs w c)"
    and "w1 = w\<lparr>sleep_queue := (sleep_queue w)(s := rest),
                ctxs := (ctxs w)(c := (ctxs w c)\<lparr>time_point := TimePointT_max\<rparr>)\<rparr>"
  shows "wakeup_sleep_loop try_timeout now s w =
     (if timeout_won try_timeout w c
      then (case schedule s c w1 of
              Inl e \<Rightarrow> Inl e
            | Inr w2 \<Rightarrow> wakeup_sleep_loop try_timeout now s w2)
      else wakeup_sleep_loop try_timeout now s w1)"
  by (subst wakeup_sleep_loop.simps) (simp add: assms timeout_won_def Let_def)

lemma wakeup_sleep_loop_post:
  assumes "sleep_queue_ordered s w"
    and "\<forall>c\<in>set (sleep_queue w s). scheduler (ctxs w c) \<noteq> None"
  shows "\<exists>w'. wakeup_sleep_loop try_timeout now s w = Inr w' \<and> wakeup_post try_timeout now s w w'"
  using assms
proof (induction try_timeout now s w rule: wakeup_sleep_loop.induct)
  case (1 try_timeout now s w)
  show ?case
  proof (cases "sleep_queue w s")
    case Nil
    then show ?thesis
      using wakeup_post_stop [OF "1.prems"(1)] wakeup_sleep_loop_Nil by simp
  next
    case (Cons c rest)
    show ?thesis
    proof (cases "now < time_point (ctxs w c)")
      case True
      then show ?thesis
        using wakeup_post_stop [OF "1.prems"(1)] wakeup_sleep_loop_future [OF Cons True] Cons
        by simp
    next
      case future: False
      define w1 where "w1 = w\<lparr>sleep_queue := (sleep_queue w)(s := rest),
                       ctxs := (ctxs w)(c := (ctxs w c)\<lparr>time_point := TimePointT_max\<rparr>)\<rparr>"
      note unfold = wakeup_sleep_loop_expired [OF Cons future w1_def, of try_timeout]
      have ex: "expired now w c"
        using future by (simp add: expired_def)
      have notin: "c \<notin> set rest"
        using "1.prems"(1) Cons by (simp add: sleep_queue_ordered_def)
      have w1: "sleep_queue w1 s = rest"
        "\<forall>d. time_point (ctxs w1 d) = (if d = c then TimePointT_max else time_point (ctxs w d))"
        "\<forall>d. alt (ctxs w1 d) = alt (ctxs w d)"
        "\<forall>d. scheduler (ctxs w1 d) = scheduler (ctxs w d)"
        "call_log w1 = call_log w"
        "\<forall>d. ctx_type (ctxs w1 d) = ctx_type (ctxs w d)"
        "\<forall>s' d. owned_by w1 s' d = owned_by w s' d"
        "\<forall>d. is_type Type_Dynamic (ctxs w1 d) = is_type Type_Dynamic (ctxs w d)"
        "deque w1 = deque w \<and> ready_queue w1 = ready_queue w \<and> remote_queue w1 = remote_queue w \<and>
           notified w1 = notified w"
        by (simp_all add: w1_def owned_by_def is_type_def)
      have won1: "(case alt (ctxs w1 c) of None \<Rightarrow> True | Some al \<Rightarrow> try_timeout al)
          = timeout_won try_timeout w c"
        using w1(3) by (simp add: timeout_won_def)
      have sch_rest: "\<forall>d\<in>set rest. scheduler (ctxs w d) \<noteq> None"
        using "1.prems"(2) Cons by simp
      show ?thesis
      proof (cases "timeout_won try_timeout w c")
        case True
        have "scheduler (ctxs w1 c) \<noteq> None"
          using "1.prems"(2) Cons w1(4) by simp
        then obtain w2 where w2: "schedule s c w1 = Inr w2"
          using schedule_returns by blast
        have a: "sleep_queue w2 s = rest"
          using schedule_fields(5) [OF w2] w1(1) notin by simp
        have b: "\<forall>d. time_point (ctxs w2 d) = (if d = c then TimePointT_max else time_point (ctxs w d))"
          using schedule_fields(1) [OF w2] w1(2) by simp
        have cc: "\<forall>d. alt (ctxs w2 d) = alt (ctxs w d)"
          using schedule_fields(2) [OF w2] w1(3) by simp
        have e: "call_log w2 = call_log w @ (if timeout_won try_timeout w c then [Schedule c] else [])"
          using schedule_fields(4) [OF w2] w1(5) True by simp
        have t: "\<forall>d. ctx_type (ctxs w2 d) = ctx_type (ctxs w d)"
          using schedule_effect(1) [OF w2] w1(6) by simp
        have sc: "\<forall>d. scheduler (ctxs w2 d) =
            (if d = c \<and> timeout_won try_timeout w c \<and> owned_by w s c \<and>
                is_type Type_Dynamic (ctxs w c)
             then None else scheduler (ctxs w d))"
        proof
          fix d
          show "scheduler (ctxs w2 d) =
            (if d = c \<and> timeout_won try_timeout w c \<and> owned_by w s c \<and>
                is_type Type_Dynamic (ctxs w c)
             then None else scheduler (ctxs w d))"
          proof (cases "d = c")
            case True
            then show ?thesis
              using schedule_effect(2) [OF w2] w1(7,8) w1(4) \<open>timeout_won try_timeout w c\<close>
              by simp
          next
            case False
            then show ?thesis
              using schedule_fields(3) [OF w2] w1(4) by simp
          qed
        qed
        have dq: "deque w2 s = deque w s @
            (if timeout_won try_timeout w c \<and> owned_by w s c \<and> is_type Type_Dynamic (ctxs w c)
             then [c] else [])"
          using schedule_effect(3) [OF w2] w1(7,8,9) True by simp
        have rq: "ready_queue w2 s = ready_queue w s @
            (if timeout_won try_timeout w c \<and> owned_by w s c \<and>
                \<not> is_type Type_Dynamic (ctxs w c)
             then [c] else [])"
          using schedule_effect(4) [OF w2] w1(7,8,9) True by simp
        have rm: "\<forall>s'. s' \<noteq> s \<longrightarrow>
            remote_queue w2 s' = remote_queue w s' @
              (if timeout_won try_timeout w c \<and> owned_by w s' c then [c] else []) \<and>
            notified w2 s' = notified w s' +
              (if timeout_won try_timeout w c \<and> owned_by w s' c then 1 else 0)"
          using schedule_effect(5,6) [OF w2] w1(7,9) True by simp
        have schn: "\<forall>d\<in>set (sleep_queue w2 s). scheduler (ctxs w2 d) \<noteq> None"
        proof
          fix d
          assume "d \<in> set (sleep_queue w2 s)"
          then have d: "d \<in> set rest" using a by simp
          then have "d \<noteq> c" using notin by auto
          then have "scheduler (ctxs w2 d) = scheduler (ctxs w d)"
            using schedule_fields(3) [OF w2] w1(4) by simp
          then show "scheduler (ctxs w2 d) \<noteq> None"
            using sch_rest d by simp
        qed
        have won1': "case alt (ctxs w1 c) of None \<Rightarrow> True | Some al \<Rightarrow> try_timeout al"
          using won1 True by simp
        have post_any: "\<And>w'. wakeup_post try_timeout now s w2 w' \<Longrightarrow>
            sleep_queue_ordered s w2 \<and> wakeup_post try_timeout now s w w'"
          by (rule wakeup_post_step [OF "1.prems"(1) Cons ex a b cc e t sc dq rq rm])
        have ordn: "sleep_queue_ordered s w2"
        proof -
          have meq: "map (\<lambda>d. time_point (ctxs w2 d)) rest = map (\<lambda>d. time_point (ctxs w d)) rest"
            using b notin by auto
          have "sorted (map (\<lambda>d. time_point (ctxs w d)) rest)" and "distinct rest"
            using "1.prems"(1) Cons by (simp_all add: sleep_queue_ordered_def)
          then have "sorted (map (\<lambda>d. time_point (ctxs w2 d)) rest)" and "distinct rest"
            by (simp_all only: meq)
          then show ?thesis
            unfolding sleep_queue_ordered_def a by simp
        qed
        obtain w' where r: "wakeup_sleep_loop try_timeout now s w2 = Inr w'"
          and post: "wakeup_post try_timeout now s w2 w'"
          using "1.IH"(1) [OF Cons future w1_def won1' w2 ordn schn] by blast
        have "wakeup_sleep_loop try_timeout now s w = Inr w'"
          using unfold True w2 r by simp
        then show ?thesis
          using post_any [OF post] by simp
      next
        case False
        have e: "call_log w1 = call_log w @ (if timeout_won try_timeout w c then [Schedule c] else [])"
          using w1(5) False by simp
        have schn: "\<forall>d\<in>set (sleep_queue w1 s). scheduler (ctxs w1 d) \<noteq> None"
          using w1(1,4) sch_rest by simp
        have won1': "\<not> (case alt (ctxs w1 c) of None \<Rightarrow> True | Some al \<Rightarrow> try_timeout al)"
          using won1 False by simp
        have sc: "\<forall>d. scheduler (ctxs w1 d) =
            (if d = c \<and> timeout_won try_timeout w c \<and> owned_by w s c \<and>
                is_type Type_Dynamic (ctxs w c)
             then None else scheduler (ctxs w d))"
          using w1(4) False by simp
        have dq: "deque w1 s = deque w s @
            (if timeout_won try_timeout w c \<and> owned_by w s c \<and> is_type Type_Dynamic (ctxs w c)
             then [c] else [])"
          using w1(9) False by simp
        have rq: "ready_queue w1 s = ready_queue w s @
            (if timeout_won try_timeout w c \<and> owned_by w s c \<and>
                \<not> is_type Type_Dynamic (ctxs w c)
             then [c] else [])"
          using w1(9) False by simp
        have rm: "\<forall>s'. s' \<noteq> s \<longrightarrow>
            remote_queue w1 s' = remote_queue w s' @
              (if timeout_won try_timeout w c \<and> owned_by w s' c then [c] else []) \<and>
            notified w1 s' = notified w s' +
              (if timeout_won try_timeout w c \<and> owned_by w s' c then 1 else 0)"
          using w1(9) False by simp
        have post_any: "\<And>w'. wakeup_post try_timeout now s w1 w' \<Longrightarrow>
            sleep_queue_ordered s w1 \<and> wakeup_post try_timeout now s w w'"
          by (rule wakeup_post_step [OF "1.prems"(1) Cons ex w1(1) w1(2) w1(3) e w1(6) sc dq rq rm])
        have ordn: "sleep_queue_ordered s w1"
        proof -
          have meq: "map (\<lambda>d. time_point (ctxs w1 d)) rest = map (\<lambda>d. time_point (ctxs w d)) rest"
            using w1(2) notin by auto
          have "sorted (map (\<lambda>d. time_point (ctxs w d)) rest)" and "distinct rest"
            using "1.prems"(1) Cons by (simp_all add: sleep_queue_ordered_def)
          then have "sorted (map (\<lambda>d. time_point (ctxs w1 d)) rest)" and "distinct rest"
            by (simp_all only: meq)
          then show ?thesis
            unfolding sleep_queue_ordered_def w1(1) by simp
        qed
        obtain w' where r: "wakeup_sleep_loop try_timeout now s w1 = Inr w'"
          and post: "wakeup_post try_timeout now s w1 w'"
          using "1.IH"(2) [OF Cons future w1_def won1' ordn schn] by blast
        have "wakeup_sleep_loop try_timeout now s w = Inr w'"
          using unfold False r by simp
        then show ?thesis
          using post_any [OF post] by simp
      qed
    qed
  qed
qed


text \<open>
  C4. On a sleep-set in deadline order whose fibers all have an owning scheduler, a
  pass of \<open>wakeup_sleep_\<close> returns, and then: the sleep-set holds the entries with a
  deadline after \<open>now\<close>, in their order, and no others; the deadline of every entry
  that was at or before \<open>now\<close> is \<open>TimePointT::max()\<close>, every other deadline is
  unchanged; \<open>schedule\<close> has been called, in deadline order, for exactly the expired
  entries that wait in no Alt or whose Alt's \<open>try_timeout()\<close> answered true; and
  these fibers, and no others, have been made runnable, in that order: the Dynamic ones
  that the worker owns stand at the owner's end of its deque and are detached, the
  others that it owns at the end of its ready list, and those of another worker at the
  end of that worker's remote inbox, its barrier notified once for each.
\<close>

theorem wakeup_sleep_wakes_expired:
  assumes "sleep_queue_ordered s w"
    and "\<forall>c\<in>set (sleep_queue w s). scheduler (ctxs w c) \<noteq> None"
  shows "\<exists>w'. wakeup_sleep try_timeout now s w = Inr w' \<and>
     sleep_queue w' s = filter (\<lambda>c. \<not> expired now w c) (sleep_queue w s) \<and>
     (\<forall>c. time_point (ctxs w' c) =
        (if c \<in> set (sleep_queue w s) \<and> expired now w c then TimePointT_max
         else time_point (ctxs w c))) \<and>
     call_log w' = call_log w @ WakeupSleep #
       map Schedule
         (filter (\<lambda>c. expired now w c \<and> timeout_won try_timeout w c) (sleep_queue w s)) \<and>
     deque w' s = deque w s @
       filter (\<lambda>c. owned_by w s c \<and> is_type Type_Dynamic (ctxs w c))
         (woken_fibers try_timeout now s w) \<and>
     ready_queue w' s = ready_queue w s @
       filter (\<lambda>c. owned_by w s c \<and> \<not> is_type Type_Dynamic (ctxs w c))
         (woken_fibers try_timeout now s w) \<and>
     (\<forall>s'. s' \<noteq> s \<longrightarrow>
        remote_queue w' s' = remote_queue w s' @
          filter (owned_by w s') (woken_fibers try_timeout now s w) \<and>
        notified w' s' = notified w s' +
          length (filter (owned_by w s') (woken_fibers try_timeout now s w))) \<and>
     (\<forall>c. scheduler (ctxs w' c) =
        (if c \<in> set (woken_fibers try_timeout now s w) \<and> owned_by w s c \<and>
            is_type Type_Dynamic (ctxs w c)
         then None else scheduler (ctxs w c)))"
proof -
  let ?w0 = "log_call WakeupSleep w"
  have same: "sleep_queue ?w0 = sleep_queue w" "ctxs ?w0 = ctxs w"
    "call_log ?w0 = call_log w @ [WakeupSleep]"
    "deque ?w0 = deque w" "ready_queue ?w0 = ready_queue w"
    "remote_queue ?w0 = remote_queue w" "notified ?w0 = notified w"
    by (simp_all add: log_call_def)
  have ord: "sleep_queue_ordered s ?w0"
    using assms(1) by (simp add: sleep_queue_ordered_def same)
  have sch: "\<forall>c\<in>set (sleep_queue ?w0 s). scheduler (ctxs ?w0 c) \<noteq> None"
    using assms(2) by (simp add: same)
  obtain w' where r: "wakeup_sleep_loop try_timeout now s ?w0 = Inr w'"
    and post: "wakeup_post try_timeout now s ?w0 w'"
    using wakeup_sleep_loop_post [OF ord sch] by blast
  have ex: "expired now ?w0 = expired now w"
    by (rule ext) (simp add: expired_def same)
  have won: "timeout_won try_timeout ?w0 = timeout_won try_timeout w"
    by (rule ext) (simp add: timeout_won_def same)
  have own: "owned_by ?w0 = owned_by w"
    by (intro ext) (simp add: owned_by_def same)
  have wk: "woken_fibers try_timeout now s ?w0 = woken_fibers try_timeout now s w"
    by (simp add: woken_fibers_def same ex won)
  have 0: "wakeup_sleep try_timeout now s w = Inr w'"
    using r by (simp add: wakeup_sleep_def)
  have 1: "sleep_queue w' s = filter (\<lambda>c. \<not> expired now w c) (sleep_queue w s)"
    using post by (simp add: wakeup_post_def same ex)
  have 2: "\<forall>c. time_point (ctxs w' c) =
        (if c \<in> set (sleep_queue w s) \<and> expired now w c then TimePointT_max
         else time_point (ctxs w c))"
    using post by (simp add: wakeup_post_def same ex)
  have 3: "call_log w' = call_log w @ WakeupSleep #
       map Schedule
         (filter (\<lambda>c. expired now w c \<and> timeout_won try_timeout w c) (sleep_queue w s))"
    using post by (simp add: wakeup_post_def same ex won)
  have 4: "deque w' s = deque w s @
       filter (\<lambda>c. owned_by w s c \<and> is_type Type_Dynamic (ctxs w c))
         (woken_fibers try_timeout now s w)"
    using post unfolding wakeup_post_def wk own same by (elim conjE)
  have 5: "ready_queue w' s = ready_queue w s @
       filter (\<lambda>c. owned_by w s c \<and> \<not> is_type Type_Dynamic (ctxs w c))
         (woken_fibers try_timeout now s w)"
    using post unfolding wakeup_post_def wk own same by (elim conjE)
  have 6: "\<forall>s'. s' \<noteq> s \<longrightarrow>
        remote_queue w' s' = remote_queue w s' @
          filter (owned_by w s') (woken_fibers try_timeout now s w) \<and>
        notified w' s' = notified w s' +
          length (filter (owned_by w s') (woken_fibers try_timeout now s w))"
    using post unfolding wakeup_post_def wk own same by (elim conjE)
  have 7: "\<forall>c. scheduler (ctxs w' c) =
        (if c \<in> set (woken_fibers try_timeout now s w) \<and> owned_by w s c \<and>
            is_type Type_Dynamic (ctxs w c)
         then None else scheduler (ctxs w c))"
    using post unfolding wakeup_post_def wk own same by (elim conjE)
  show ?thesis
    using 0 1 2 3 4 5 6 7 by (intro exI [of _ w'] conjI)
qed

lemma World_example_sleep_queue:
  "sleep_queue World_example 0 = [2, 4, 3]"
  "time_point (ctxs World_example 2) = 5"
  "time_point (ctxs World_example 4) = 7"
  "time_point (ctxs World_example 3) = 50"
  "alt (ctxs World_example 2) = None"
  "alt (ctxs World_example 4) = Some 8"
  "scheduler (ctxs World_example 2) = Some 0"
  "scheduler (ctxs World_example 4) = Some 0"
  "scheduler (ctxs World_example 3) = Some 0"
  "call_log World_example = []"
  by (simp_all add: World_example_def World_empty_def)

lemma World_sleepers_facts:
  "sleep_queue World_sleepers 0 = [2, 5, 4, 0, 3]"
  "time_point (ctxs World_sleepers 2) = 5"
  "time_point (ctxs World_sleepers 5) = 6"
  "time_point (ctxs World_sleepers 4) = 7"
  "time_point (ctxs World_sleepers 0) = 8"
  "time_point (ctxs World_sleepers 3) = 50"
  "alt (ctxs World_sleepers 2) = None"
  "alt (ctxs World_sleepers 5) = None"
  "alt (ctxs World_sleepers 4) = Some 8"
  "alt (ctxs World_sleepers 0) = None"
  "scheduler (ctxs World_sleepers 2) = Some 0"
  "scheduler (ctxs World_sleepers 5) = Some 1"
  "scheduler (ctxs World_sleepers 4) = Some 0"
  "scheduler (ctxs World_sleepers 0) = Some 0"
  "scheduler (ctxs World_sleepers 3) = Some 0"
  "is_type Type_Dynamic (ctxs World_sleepers 2)"
  "is_type Type_Dynamic (ctxs World_sleepers 5)"
  "\<not> is_type Type_Dynamic (ctxs World_sleepers 0)"
  "call_log World_sleepers = []"
  "deque World_sleepers s = []"
  "ready_queue World_sleepers s = []"
  "remote_queue World_sleepers s = []"
  "notified World_sleepers s = 0"
  by (simp_all add: World_sleepers_def World_empty_def is_type_def Type_Dynamic_def
      Type_Work_def Type_Main_def)

text \<open>
  The world of the five sleepers at clock 10, with an Alt that has already been decided:
  the fibers 2, 5 and 0 are woken and scheduled, fiber 2 onto the deque of worker 0,
  fiber 5 into the remote inbox of worker 1, which owns it, fiber 0 onto the ready list
  of worker 0; fiber 4 is taken out but not scheduled, fiber 3 sleeps on.
\<close>

theorem wakeup_sleep_wakes_expired_witness:
  "\<exists>w'. wakeup_sleep (\<lambda>al. False) 10 0 World_sleepers = Inr w' \<and>
     sleep_queue w' 0 = [3] \<and>
     time_point (ctxs w' 2) = TimePointT_max \<and>
     time_point (ctxs w' 4) = TimePointT_max \<and>
     time_point (ctxs w' 3) = 50 \<and>
     call_log w' = [WakeupSleep, Schedule 2, Schedule 5, Schedule 0] \<and>
     deque w' 0 = [2] \<and> ready_queue w' 0 = [0] \<and> remote_queue w' 1 = [5] \<and>
     notified w' 1 = 1 \<and> scheduler (ctxs w' 2) = None"
proof -
  note f = World_sleepers_facts
  have ord: "sleep_queue_ordered 0 World_sleepers"
    by (simp add: sleep_queue_ordered_def f)
  have sch: "\<forall>c\<in>set (sleep_queue World_sleepers 0). scheduler (ctxs World_sleepers c) \<noteq> None"
    by (simp add: f)
  have wk: "woken_fibers (\<lambda>al. False) 10 0 World_sleepers = [2, 5, 0]"
    by (simp add: woken_fibers_def expired_def timeout_won_def f)
  obtain w' where 1: "wakeup_sleep (\<lambda>al. False) 10 0 World_sleepers = Inr w'"
    and 2: "sleep_queue w' 0 =
      filter (\<lambda>c. \<not> expired 10 World_sleepers c) (sleep_queue World_sleepers 0)"
    and 3: "\<forall>c. time_point (ctxs w' c) =
        (if c \<in> set (sleep_queue World_sleepers 0) \<and> expired 10 World_sleepers c
         then TimePointT_max else time_point (ctxs World_sleepers c))"
    and 4: "call_log w' = call_log World_sleepers @ WakeupSleep #
       map Schedule
         (filter (\<lambda>c. expired 10 World_sleepers c \<and> timeout_won (\<lambda>al. False) World_sleepers c)
            (sleep_queue World_sleepers 0))"
    and 5: "deque w' 0 = deque World_sleepers 0 @
       filter (\<lambda>c. owned_by World_sleepers 0 c \<and> is_type Type_Dynamic (ctxs World_sleepers c))
         (woken_fibers (\<lambda>al. False) 10 0 World_sleepers)"
    and 6: "ready_queue w' 0 = ready_queue World_sleepers 0 @
       filter (\<lambda>c. owned_by World_sleepers 0 c \<and> \<not> is_type Type_Dynamic (ctxs World_sleepers c))
         (woken_fibers (\<lambda>al. False) 10 0 World_sleepers)"
    and 7: "\<forall>s'. s' \<noteq> 0 \<longrightarrow>
        remote_queue w' s' = remote_queue World_sleepers s' @
          filter (owned_by World_sleepers s') (woken_fibers (\<lambda>al. False) 10 0 World_sleepers) \<and>
        notified w' s' = notified World_sleepers s' +
          length (filter (owned_by World_sleepers s')
            (woken_fibers (\<lambda>al. False) 10 0 World_sleepers))"
    and 8: "\<forall>c. scheduler (ctxs w' c) =
        (if c \<in> set (woken_fibers (\<lambda>al. False) 10 0 World_sleepers) \<and>
            owned_by World_sleepers 0 c \<and> is_type Type_Dynamic (ctxs World_sleepers c)
         then None else scheduler (ctxs World_sleepers c))"
    using wakeup_sleep_wakes_expired [OF ord sch, of "\<lambda>al. False" 10] by blast
  have a: "sleep_queue w' 0 = [3]"
    using 2 by (simp add: expired_def f)
  have b: "time_point (ctxs w' 2) = TimePointT_max" "time_point (ctxs w' 4) = TimePointT_max"
    "time_point (ctxs w' 3) = 50"
    using 3 by (simp_all add: expired_def f)
  have c: "call_log w' = [WakeupSleep, Schedule 2, Schedule 5, Schedule 0]"
    using 4 by (simp add: expired_def timeout_won_def f)
  have d: "deque w' 0 = [2]"
    using 5 by (simp add: wk owned_by_def f)
  have e: "ready_queue w' 0 = [0]"
    using 6 by (simp add: wk owned_by_def f)
  have g: "remote_queue w' 1 = [5]" "notified w' 1 = 1"
    using 7 by (simp_all add: wk owned_by_def f)
  have h: "scheduler (ctxs w' 2) = None"
    using 8 by (simp add: wk owned_by_def f)
  show ?thesis
    using 1 a b c d e g h by (intro exI [of _ w'] conjI)
qed


section \<open>Properties of the scheduler loop\<close>












































end
